theory Spec2Isabelle
  imports Main "HOL-Library.Sublist" "HOL-Library.Char_ord" "HOL-Library.List_Lexorder"
begin

section \<open>Strings and paths of the Go standard library\<close>

text \<open>
  Go strings are byte sequences; \<open>string\<close> (a list of \<open>char\<close>) models them, and the order
  of \<open>HOL-Library.Char_ord\<close> with \<open>HOL-Library.List_Lexorder\<close> is Go's byte-wise \<open><\<close>.
\<close>

definition hasPrefix :: "string \<Rightarrow> string \<Rightarrow> bool" where
  "hasPrefix s p = prefix p s"

definition trimPrefix :: "string \<Rightarrow> string \<Rightarrow> string" where
  "trimPrefix s p = (if hasPrefix s p then drop (length p) s else s)"

text \<open>\<open>strings.LastIndex\<close>: the index of the last occurrence of \<open>sub\<close>, or \<open>-1\<close>.\<close>

fun lastIndex :: "string \<Rightarrow> string \<Rightarrow> int" where
  "lastIndex [] sub = (if sub = [] then 0 else -1)"
| "lastIndex (c # s) sub =
     (let i = lastIndex s sub in
      if 0 \<le> i then i + 1
      else if prefix sub (c # s) then 0
      else -1)"

fun splitOn :: "char \<Rightarrow> string \<Rightarrow> string list" where
  "splitOn c [] = [[]]"
| "splitOn c (x # xs) =
     (if x = c then [] # splitOn c xs
      else (case splitOn c xs of [] \<Rightarrow> [[x]] | w # ws \<Rightarrow> (x # w) # ws))"

fun joinWith :: "string \<Rightarrow> string list \<Rightarrow> string" where
  "joinWith sep [] = []"
| "joinWith sep [x] = x"
| "joinWith sep (x # y # ys) = x @ sep @ joinWith sep (y # ys)"

text \<open>
  \<open>path.Clean\<close>: empty and \<open>.\<close> elements are dropped, a \<open>..\<close> removes the element before
  it (or is kept at the front of a path that is not rooted, or dropped at the root), and
  the empty result is \<open>.\<close>.
\<close>

fun cleanElems :: "bool \<Rightarrow> string list \<Rightarrow> string list \<Rightarrow> string list" where
  "cleanElems rooted out [] = out"
| "cleanElems rooted out (s # ss) =
     (if s = [] \<or> s = ''.'' then cleanElems rooted out ss
      else if s = ''..'' then
        (if out \<noteq> [] \<and> last out \<noteq> ''..'' then cleanElems rooted (butlast out) ss
         else if \<not> rooted then cleanElems rooted (out @ [''..'']) ss
         else cleanElems rooted out ss)
      else cleanElems rooted (out @ [s]) ss)"

definition path_Clean :: "string \<Rightarrow> string" where
  "path_Clean p =
     (if p = [] then ''.''
      else
        (let rooted = (hd p = CHR ''/'');
             out = cleanElems rooted [] (splitOn CHR ''/'' p);
             r = (if rooted then ''/'' else []) @ joinWith ''/'' out
         in if r = [] then ''.'' else r))"

text \<open>\<open>path.Join\<close> of two elements.\<close>

definition path_Join :: "string \<Rightarrow> string \<Rightarrow> string" where
  "path_Join a b =
     (if a = [] then (if b = [] then [] else path_Clean b)
      else path_Clean (a @ ''/'' @ b))"

text \<open>
  \<open>filepath.Base\<close> (Unix): trailing slashes are stripped and the last element returned;
  the empty path gives \<open>.\<close> and a path of slashes only gives \<open>/\<close>.
\<close>

definition stripTrailingSlashes :: "string \<Rightarrow> string" where
  "stripTrailingSlashes p = rev (dropWhile (\<lambda>c. c = CHR ''/'') (rev p))"

definition filepath_Base :: "string \<Rightarrow> string" where
  "filepath_Base p =
     (if p = [] then ''.''
      else
        (let q = stripTrailingSlashes p in
         if q = [] then ''/'' else last (splitOn CHR ''/'' q)))"

section \<open>Data model of the rule generator\<close>

definition goRulesBzl :: string where
  "goRulesBzl = ''@io_bazel_rules_go//go:def.bzl''"

definition defaultLibName :: string where
  "defaultLibName = ''go_default_library''"

definition defaultTestName :: string where
  "defaultTestName = ''go_default_test''"

definition defaultXTestName :: string where
  "defaultXTestName = ''go_default_xtest''"

definition defaultProtosName :: string where
  "defaultProtosName = ''go_default_library_protos''"

definition defaultCgoLibName :: string where
  "defaultCgoLibName = ''cgo_default_library''"

text \<open>
  Modelled from the spec: the \<open>label\<close> struct and its \<open>String\<close> method are declared outside
  the files at hand. A label is a repository (empty for the local one), a package path and
  a rule name; its text is \<open>@repo//pkg:name\<close>, or \<open>//pkg:name\<close> in the local repository.
\<close>

record label =
  label_repo :: string
  label_pkg :: string
  label_name :: string

definition label_String :: "label \<Rightarrow> string" where
  "label_String l =
     (if label_repo l = [] then ''//'' @ label_pkg l @ '':'' @ label_name l
      else ''@'' @ label_repo l @ ''//'' @ label_pkg l @ '':'' @ label_name l)"

text \<open>
  Modelled from the spec: \<open>packages.PlatformStrings\<close> is a base list of strings with
  per-platform lists beside it. \<open>IsEmpty\<close> is emptiness across all platforms, \<open>Map\<close> applies
  a fallible function to every string, keeping the results and collecting the errors, and
  \<open>Clean\<close> removes duplicates and, from the per-platform lists, what the base list has.
\<close>

record PlatformStrings =
  Generic :: "string list"
  Platform :: "(string \<times> string list) list"

definition PS_IsEmpty :: "PlatformStrings \<Rightarrow> bool" where
  "PS_IsEmpty ps = (Generic ps = [] \<and> concat (map snd (Platform ps)) = [])"

definition PS_strings :: "PlatformStrings \<Rightarrow> string list" where
  "PS_strings ps = Generic ps @ concat (map snd (Platform ps))"

fun mapSlice :: "(string \<Rightarrow> 'e + string) \<Rightarrow> string list \<Rightarrow> string list \<times> 'e list" where
  "mapSlice f [] = ([], [])"
| "mapSlice f (s # ss) =
     (case f s of
        Inl e \<Rightarrow> (fst (mapSlice f ss), e # snd (mapSlice f ss))
      | Inr r \<Rightarrow> (r # fst (mapSlice f ss), snd (mapSlice f ss)))"

definition PS_Map :: "(string \<Rightarrow> 'e + string) \<Rightarrow> PlatformStrings \<Rightarrow> PlatformStrings \<times> 'e list" where
  "PS_Map f ps =
     (\<lparr>Generic = fst (mapSlice f (Generic ps)),
       Platform = map (\<lambda>(p, xs). (p, fst (mapSlice f xs))) (Platform ps)\<rparr>,
      snd (mapSlice f (Generic ps)) @ concat (map (\<lambda>(p, xs). snd (mapSlice f xs)) (Platform ps)))"

definition PS_Clean :: "PlatformStrings \<Rightarrow> PlatformStrings" where
  "PS_Clean ps =
     \<lparr>Generic = remdups (Generic ps),
      Platform = map (\<lambda>(p, xs). (p, remdups (filter (\<lambda>x. x \<notin> set (Generic ps)) xs))) (Platform ps)\<rparr>"

text \<open>
  Modelled from the spec: \<open>packages.Target\<close> and \<open>packages.Package\<close> are declared outside the
  files at hand. A target has sources, imports and compile and link flags; \<open>HasGo\<close> is that
  its sources are not empty. A package has a directory, a path relative to the repository
  root, its five targets, and the flags and the list of interface-definition files the
  generator reads.
\<close>

record Target =
  Sources :: PlatformStrings
  Imports :: PlatformStrings
  COpts :: PlatformStrings
  CLinkOpts :: PlatformStrings

definition HasGo :: "Target \<Rightarrow> bool" where
  "HasGo t = (\<not> PS_IsEmpty (Sources t))"

record Package =
  Dir :: string
  Rel :: string
  IsCommand :: bool
  Library :: Target
  CgoLibrary :: Target
  Binary :: Target
  Test :: Target
  XTest :: Target
  HasPbGo :: bool
  HasTestdata :: bool
  Protos :: "string list"

text \<open>
  The values of \<open>keyvalue\<close>: a string, a string slice, a \<open>PlatformStrings\<close> or a
  \<open>globvalue\<close>. A rule is its kind, its positional arguments and its attributes in order.
\<close>

datatype attr_value =
    StringValue string
  | ListValue "string list"
  | PlatformValue PlatformStrings
  | GlobValue "string list"

record 'v rule =
  Kind :: string
  Args :: "string list"
  Attrs :: "(string \<times> 'v) list"

text \<open>
  Modelled from the spec: \<open>newRule\<close> is declared outside the files at hand. It builds the
  rule from the kind, the positional arguments and the attributes, in the order given.
\<close>

definition newRule :: "string \<Rightarrow> string list \<Rightarrow> (string \<times> 'v) list \<Rightarrow> 'v rule" where
  "newRule kind args kwargs = \<lparr>Kind = kind, Args = args, Attrs = kwargs\<rparr>"

definition attrKeys :: "'v rule \<Rightarrow> string list" where
  "attrKeys r = map fst (Attrs r)"

text \<open>\<open>Rule.Name\<close> of the syntax library: the string under \<open>name\<close>, or the empty string.\<close>

definition Rule_Name :: "attr_value rule \<Rightarrow> string" where
  "Rule_Name r = (case map_of (Attrs r) ''name'' of Some (StringValue s) \<Rightarrow> s | _ \<Rightarrow> [])"

section \<open>Configuration and resolvers\<close>

text \<open>
  Modelled from the spec: \<open>config.Config\<close> is declared outside the files at hand. The
  dependency mode is one of three; any other value of the Go integer is \<open>OtherMode\<close>.
\<close>

datatype dep_mode = ExternalMode | VendorMode | UnoMode | OtherMode

record Config =
  GoPrefix :: string
  DepMode :: dep_mode
  Dirs :: "string list"
  RepoRoot :: string

type_synonym resolve_result = "string + label"

text \<open>\<open>vendoredResolver.resolve\<close>.\<close>

definition vendoredResolver_resolve :: "string \<Rightarrow> string \<Rightarrow> resolve_result" where
  "vendoredResolver_resolve importpath dir =
     Inr \<lparr>label_repo = [], label_pkg = ''vendor/'' @ importpath, label_name = defaultLibName\<rparr>"

text \<open>
  The structured, external and multi-root resolvers are declared outside the files at
  hand; the generator takes them as parameters.
\<close>

record resolvers =
  structured_resolve :: "string \<Rightarrow> string \<Rightarrow> string \<Rightarrow> resolve_result"
  external_resolve :: "string \<Rightarrow> string \<Rightarrow> resolve_result"
  uno_resolve :: "string list \<Rightarrow> string \<Rightarrow> string \<Rightarrow> resolve_result"

datatype modeResolver =
    ExternalResolver
  | VendoredResolver
  | UnoResolver (projRoots: "string list")

fun resolveWith :: "resolvers \<Rightarrow> modeResolver \<Rightarrow> string \<Rightarrow> string \<Rightarrow> resolve_result" where
  "resolveWith rs ExternalResolver importpath dir = external_resolve rs importpath dir"
| "resolveWith rs VendoredResolver importpath dir = vendoredResolver_resolve importpath dir"
| "resolveWith rs (UnoResolver roots) importpath dir = uno_resolve rs roots importpath dir"

definition isRelative :: "string \<Rightarrow> bool" where
  "isRelative importpath = (hasPrefix importpath ''./'' \<or> hasPrefix importpath ''..'')"

text \<open>
  The \<open>switch\<close> of \<open>NewGenerator\<close>. In \<open>UnoMode\<close> the directories are stripped of the cleaned
  repository root and sorted with \<open>sort.Sort\<close>, ascending. The call \<open>sort.Reverse(dirs)\<close>
  that follows only builds a reversed view of the slice and returns it; the view is
  dropped, so the slice the resolver receives is the ascending one.
\<close>

definition newModeResolver :: "Config \<Rightarrow> modeResolver option" where
  "newModeResolver c =
     (case DepMode c of
        ExternalMode \<Rightarrow> Some ExternalResolver
      | VendorMode \<Rightarrow> Some VendoredResolver
      | UnoMode \<Rightarrow>
          (let dirs = map (\<lambda>dir. trimPrefix dir (path_Clean (RepoRoot c) @ ''/'')) (Dirs c);
               dirs = sort dirs
           in Some (UnoResolver dirs))
      | OtherMode \<Rightarrow> None)"

record generator =
  gen_c :: Config
  gen_r :: "string \<Rightarrow> string \<Rightarrow> resolve_result"

definition NewGenerator :: "resolvers \<Rightarrow> Config \<Rightarrow> generator option" where
  "NewGenerator rs c =
     (case newModeResolver c of
        None \<Rightarrow> None
      | Some e \<Rightarrow>
          Some \<lparr>gen_c = c,
                gen_r = (\<lambda>importpath dir.
                  if importpath \<noteq> GoPrefix c \<and> \<not> hasPrefix importpath (GoPrefix c @ ''/'')
                     \<and> \<not> isRelative importpath
                  then resolveWith rs e importpath dir
                  else structured_resolve rs (GoPrefix c) importpath dir)\<rparr>)"

section \<open>The rule generator\<close>

text \<open>
  The repository holds two revisions of the generator. One builds every rule for the
  build file of the package's own directory; the other takes the directory of the build
  file as \<open>bfPath\<close> and can also write one build file for all vendored packages.
  Functions that are the same in both are modelled once; where they differ, the function
  of the revision with \<open>bfPath\<close> carries the suffix \<open>_bf\<close>.

  \<open>log.Print\<close> is an effect: every function that can reach it returns the list of logged
  errors beside its result.
\<close>

datatype dep_error = CouldNotResolve (err_dir: string) (err_imp: string) (err_cause: string)

datatype 'v stmt = Load "string list" | RuleCall "'v rule"

definition checkInternalVisibility :: "string \<Rightarrow> string \<Rightarrow> string" where
  "checkInternalVisibility rel visibility =
     (let i = lastIndex rel ''/internal/'' in
      if 0 \<le> i then ''//'' @ take (nat i) rel @ '':__subpackages__''
      else if hasPrefix rel ''internal/'' then ''//:__subpackages__''
      else visibility)"

definition dependencies :: "generator \<Rightarrow> PlatformStrings \<Rightarrow> string \<Rightarrow> PlatformStrings \<times> dep_error list" where
  "dependencies g imports dir =
     (let resolve = (\<lambda>imp. case gen_r g imp dir of
                              Inl err \<Rightarrow> Inl (CouldNotResolve dir imp err)
                            | Inr l \<Rightarrow> Inr (label_String l));
          (deps, errors) = PS_Map resolve imports
      in (PS_Clean deps, errors))"

definition generateRule ::
  "generator \<Rightarrow> string \<Rightarrow> string \<Rightarrow> string \<Rightarrow> string \<Rightarrow> string \<Rightarrow> bool \<Rightarrow> Target
     \<Rightarrow> attr_value rule \<times> dep_error list" where
  "generateRule g rel kind nm visibility library hasTestdata target =
     (let attrs = [(''name'', StringValue nm)];
          attrs = (if \<not> PS_IsEmpty (Sources target)
                   then attrs @ [(''srcs'', PlatformValue (Sources target))] else attrs);
          attrs = (if \<not> PS_IsEmpty (CLinkOpts target)
                   then attrs @ [(''clinkopts'', PlatformValue (CLinkOpts target))] else attrs);
          attrs = (if \<not> PS_IsEmpty (COpts target)
                   then attrs @ [(''copts'', PlatformValue (COpts target))] else attrs);
          attrs = (if hasTestdata
                   then attrs @ [(''data'', GlobValue [''testdata/**''])] else attrs);
          attrs = (if library \<noteq> []
                   then attrs @ [(''library'', StringValue ('':'' @ library))] else attrs);
          attrs = (if visibility \<noteq> []
                   then attrs @ [(''visibility'', ListValue [visibility])] else attrs)
      in if \<not> PS_IsEmpty (Imports target)
         then (let (deps, lg) = dependencies g (Imports target) rel
               in (newRule kind [] (attrs @ [(''deps'', PlatformValue deps)]), lg))
         else (newRule kind [] attrs, []))"

definition loadableKinds :: "string list" where
  "loadableKinds = [''cgo_library'', ''go_binary'', ''go_library'', ''go_prefix'', ''go_test'']"

definition generateLoad :: "'v rule list \<Rightarrow> 'v stmt option" where
  "generateLoad rs =
     (let kinds = set (map Kind rs);
          args = goRulesBzl # filter (\<lambda>k. k \<in> kinds) loadableKinds
      in if length args = 1 then None else Some (Load args))"

definition generateCgoLib :: "generator \<Rightarrow> Package \<Rightarrow> string \<times> attr_value rule option \<times> dep_error list" where
  "generateCgoLib g pkg =
     (if \<not> HasGo (CgoLibrary pkg) then ([], None, [])
      else
        (let (r, lg) = generateRule g (Rel pkg) ''cgo_library'' defaultCgoLibName
                         ''//visibility:private'' [] False (CgoLibrary pkg)
         in (defaultCgoLibName, Some r, lg)))"

definition generateLib :: "generator \<Rightarrow> Package \<Rightarrow> string \<Rightarrow> string \<times> attr_value rule option \<times> dep_error list" where
  "generateLib g pkg cgoName =
     (if \<not> HasGo (Library pkg) \<and> cgoName = [] then ([], None, [])
      else
        (let visibility = (if IsCommand pkg then ''//visibility:private''
                           else checkInternalVisibility (Rel pkg) ''//visibility:public'');
             (r, lg) = generateRule g (Rel pkg) ''go_library'' defaultLibName visibility cgoName
                         False (Library pkg)
         in (defaultLibName, Some r, lg)))"

definition generateBin :: "generator \<Rightarrow> Package \<Rightarrow> string \<Rightarrow> attr_value rule option \<times> dep_error list" where
  "generateBin g pkg library =
     (if \<not> IsCommand pkg \<or> PS_IsEmpty (Sources (Binary pkg)) \<and> library = [] then (None, [])
      else
        (let visibility = checkInternalVisibility (Rel pkg) ''//visibility:public'';
             (r, lg) = generateRule g (Rel pkg) ''go_binary'' (filepath_Base (Dir pkg)) visibility
                         library False (Binary pkg)
         in (Some r, lg)))"

definition filegroup :: "Package \<Rightarrow> attr_value rule option" where
  "filegroup pkg =
     (if \<not> HasPbGo pkg \<or> length (Protos pkg) = 0 then None
      else Some (newRule ''filegroup'' []
                  [(''name'', StringValue defaultProtosName),
                   (''srcs'', ListValue (Protos pkg)),
                   (''visibility'', ListValue [''//visibility:public''])]))"

definition generateTest :: "generator \<Rightarrow> Package \<Rightarrow> string \<Rightarrow> attr_value rule option \<times> dep_error list" where
  "generateTest g pkg library =
     (if \<not> HasGo (Test pkg) then (None, [])
      else
        (let nm = (if library = [] \<or> library = defaultLibName then defaultTestName
                   else library @ ''_test'');
             (r, lg) = generateRule g (Rel pkg) ''go_test'' nm [] library (HasTestdata pkg) (Test pkg)
         in (Some r, lg)))"

definition generateXTest :: "generator \<Rightarrow> Package \<Rightarrow> string \<Rightarrow> attr_value rule option \<times> dep_error list" where
  "generateXTest g pkg library =
     (if \<not> HasGo (XTest pkg) then (None, [])
      else
        (let nm = (if library = [] \<or> library = defaultLibName then defaultXTestName
                   else library @ ''_xtest'');
             (r, lg) = generateRule g (Rel pkg) ''go_test'' nm [] [] (HasTestdata pkg) (XTest pkg)
         in (Some r, lg)))"

definition appendRule :: "'a list \<Rightarrow> 'a option \<Rightarrow> 'a list" where
  "appendRule rules r = (case r of None \<Rightarrow> rules | Some x \<Rightarrow> rules @ [x])"

definition generateRules :: "generator \<Rightarrow> Package \<Rightarrow> attr_value rule list \<times> dep_error list" where
  "generateRules g pkg =
     (let rules = (if Rel pkg = [] then [newRule ''go_prefix'' [GoPrefix (gen_c g)] []] else []);
          (cgoLibrary, r1, lg1) = generateCgoLib g pkg;
          rules = appendRule rules r1;
          (library, r2, lg2) = generateLib g pkg cgoLibrary;
          rules = appendRule rules r2;
          (r3, lg3) = generateBin g pkg library;
          rules = appendRule rules r3;
          rules = appendRule rules (filegroup pkg);
          (r5, lg5) = generateTest g pkg library;
          rules = appendRule rules r5;
          (r6, lg6) = generateXTest g pkg library;
          rules = appendRule rules r6
      in (rules, lg1 @ lg2 @ lg3 @ lg5 @ lg6))"

text \<open>
  \<open>Generate\<close>: the statements of the file, the load statement first when there is one.
  The path of the file, and the line one revision prints about vendoring, have no part
  in the rules and are left out.
\<close>

definition Generate :: "generator \<Rightarrow> Package \<Rightarrow> attr_value stmt list \<times> dep_error list" where
  "Generate g pkg =
     (let (rs, lg) = generateRules g pkg
      in ((case generateLoad rs of None \<Rightarrow> [] | Some l \<Rightarrow> [l]) @ map RuleCall rs, lg))"

subsection \<open>The revision with \<open>bfPath\<close>\<close>

text \<open>
  \<open>relPath\<close> slices the trimmed path from index 1; the trimmed path is not empty there,
  since the clean path has the clean base as a proper prefix.
\<close>

definition relPath :: "string \<Rightarrow> string \<Rightarrow> string" where
  "relPath base p =
     (let cleanP = path_Clean p;
          cleanBase = path_Clean base
      in if cleanP \<noteq> cleanBase \<and> hasPrefix cleanP cleanBase
         then drop 1 (trimPrefix cleanP cleanBase)
         else [])"

definition generateRule_bf ::
  "generator \<Rightarrow> string \<Rightarrow> string \<Rightarrow> string \<Rightarrow> string \<Rightarrow> string \<Rightarrow> string \<Rightarrow> bool \<Rightarrow> Target
     \<Rightarrow> attr_value rule \<times> dep_error list" where
  "generateRule_bf g bfPath rel kind nm visibility library hasTestdata target =
     (let bfRel = relPath bfPath (path_Join (RepoRoot (gen_c g)) rel);
          prependBfRel = (\<lambda>s. (Inr (bfRel @ ''/'' @ s) :: dep_error + string));
          nm = (if bfRel \<noteq> [] then bfRel else nm);
          attrs = [(''name'', StringValue nm)];
          attrs = (if \<not> PS_IsEmpty (Sources target)
                   then (let srcs = (if bfRel \<noteq> [] then fst (PS_Map prependBfRel (Sources target))
                                     else Sources target)
                         in attrs @ [(''srcs'', PlatformValue srcs)])
                   else attrs);
          attrs = (if \<not> PS_IsEmpty (CLinkOpts target)
                   then attrs @ [(''clinkopts'', PlatformValue (CLinkOpts target))] else attrs);
          attrs = (if \<not> PS_IsEmpty (COpts target)
                   then attrs @ [(''copts'', PlatformValue (COpts target))] else attrs);
          attrs = (if hasTestdata
                   then (let glob = (if bfRel \<noteq> [] then GlobValue [bfRel @ ''/testdata/**'']
                                     else GlobValue [''testdata/**''])
                         in attrs @ [(''data'', glob)])
                   else attrs);
          attrs = (if library \<noteq> []
                   then attrs @ [(''library'', StringValue ('':'' @ library))] else attrs);
          attrs = (if visibility \<noteq> []
                   then attrs @ [(''visibility'', ListValue [visibility])] else attrs)
      in if \<not> PS_IsEmpty (Imports target)
         then (let (deps, lg) = dependencies g (Imports target) rel
               in (newRule kind [] (attrs @ [(''deps'', PlatformValue deps)]), lg))
         else (newRule kind [] attrs, []))"

definition generateCgoLib_bf ::
  "generator \<Rightarrow> string \<Rightarrow> Package \<Rightarrow> string \<times> attr_value rule option \<times> dep_error list" where
  "generateCgoLib_bf g bfPath pkg =
     (if \<not> HasGo (CgoLibrary pkg) then ([], None, [])
      else
        (let (r, lg) = generateRule_bf g bfPath (Rel pkg) ''cgo_library'' defaultCgoLibName
                         ''//visibility:private'' [] False (CgoLibrary pkg)
         in (Rule_Name r, Some r, lg)))"

definition generateLib_bf ::
  "generator \<Rightarrow> string \<Rightarrow> Package \<Rightarrow> string \<Rightarrow> string \<times> attr_value rule option \<times> dep_error list" where
  "generateLib_bf g bfPath pkg cgoName =
     (if \<not> HasGo (Library pkg) \<and> cgoName = [] then ([], None, [])
      else
        (let visibility = (if IsCommand pkg then ''//visibility:private''
                           else checkInternalVisibility (Rel pkg) ''//visibility:public'');
             (r, lg) = generateRule_bf g bfPath (Rel pkg) ''go_library'' defaultLibName visibility
                         cgoName False (Library pkg)
         in (Rule_Name r, Some r, lg)))"

definition generateBin_bf ::
  "generator \<Rightarrow> string \<Rightarrow> Package \<Rightarrow> string \<Rightarrow> attr_value rule option \<times> dep_error list" where
  "generateBin_bf g bfPath pkg library =
     (if \<not> IsCommand pkg \<or> PS_IsEmpty (Sources (Binary pkg)) \<and> library = [] then (None, [])
      else
        (let visibility = checkInternalVisibility (Rel pkg) ''//visibility:public'';
             (r, lg) = generateRule_bf g bfPath (Rel pkg) ''go_binary'' (filepath_Base (Dir pkg))
                         visibility library False (Binary pkg)
         in (Some r, lg)))"

text \<open>
  In \<open>filegroup\<close> the loop that should prefix the interface-definition files ranges over
  the slice it has just made empty, so with a non-empty \<open>bfRel\<close> the sources are empty.
\<close>

definition filegroup_bf :: "string \<Rightarrow> Package \<Rightarrow> attr_value rule option" where
  "filegroup_bf bfPath pkg =
     (let bfRel = relPath bfPath (Dir pkg)
      in if \<not> HasPbGo pkg \<or> length (Protos pkg) = 0 then None
         else
           (let nm = (if bfRel \<noteq> [] then bfRel @ ''_'' @ defaultProtosName else defaultProtosName);
                protos = (if bfRel \<noteq> [] then [] else Protos pkg)
            in Some (newRule ''filegroup'' []
                      [(''name'', StringValue nm),
                       (''srcs'', ListValue protos),
                       (''visibility'', ListValue [''//visibility:public''])])))"

definition generateTest_bf ::
  "generator \<Rightarrow> string \<Rightarrow> Package \<Rightarrow> string \<Rightarrow> attr_value rule option \<times> dep_error list" where
  "generateTest_bf g bfPath pkg library =
     (if \<not> HasGo (Test pkg) then (None, [])
      else
        (let nm = (if library = [] \<or> library = defaultLibName then defaultTestName
                   else library @ ''_test'');
             (r, lg) = generateRule_bf g bfPath (Rel pkg) ''go_test'' nm [] library
                         (HasTestdata pkg) (Test pkg)
         in (Some r, lg)))"

definition generateXTest_bf ::
  "generator \<Rightarrow> string \<Rightarrow> Package \<Rightarrow> string \<Rightarrow> attr_value rule option \<times> dep_error list" where
  "generateXTest_bf g bfPath pkg library =
     (if \<not> HasGo (XTest pkg) then (None, [])
      else
        (let nm = (if library = [] \<or> library = defaultLibName then defaultXTestName
                   else library @ ''_xtest'');
             (r, lg) = generateRule_bf g bfPath (Rel pkg) ''go_test'' nm [] []
                         (HasTestdata pkg) (XTest pkg)
         in (Some r, lg)))"

definition generateRules_bf ::
  "generator \<Rightarrow> string \<Rightarrow> Package \<Rightarrow> attr_value rule list \<times> dep_error list" where
  "generateRules_bf g bfPath pkg =
     (let rules = (if Rel pkg = [] then [newRule ''go_prefix'' [GoPrefix (gen_c g)] []] else []);
          (cgoLibrary, r1, lg1) = generateCgoLib_bf g bfPath pkg;
          rules = appendRule rules r1;
          (library, r2, lg2) = generateLib_bf g bfPath pkg cgoLibrary;
          rules = appendRule rules r2;
          (r3, lg3) = generateBin_bf g bfPath pkg library;
          rules = appendRule rules r3;
          rules = appendRule rules (filegroup_bf bfPath pkg);
          (r5, lg5) = generateTest_bf g bfPath pkg library;
          rules = appendRule rules r5;
          (r6, lg6) = generateXTest_bf g bfPath pkg library;
          rules = appendRule rules r6
      in (rules, lg1 @ lg2 @ lg3 @ lg5 @ lg6))"

definition generateVendorRules ::
  "generator \<Rightarrow> string \<Rightarrow> Package \<Rightarrow> attr_value rule list \<times> dep_error list" where
  "generateVendorRules g bfPath pkg =
     (let (cgoLibrary, r1, lg1) = generateCgoLib_bf g bfPath pkg;
          rules = appendRule [] r1;
          (library, r2, lg2) = generateLib_bf g bfPath pkg cgoLibrary;
          rules = appendRule rules r2;
          rules = appendRule rules (filegroup_bf bfPath pkg)
      in (rules, lg1 @ lg2))"

definition Generate_bf :: "generator \<Rightarrow> Package \<Rightarrow> attr_value stmt list \<times> dep_error list" where
  "Generate_bf g pkg =
     (let (rs, lg) = generateRules_bf g (Dir pkg) pkg
      in ((case generateLoad rs of None \<Rightarrow> [] | Some l \<Rightarrow> [l]) @ map RuleCall rs, lg))"

definition GenerateVendor ::
  "generator \<Rightarrow> string \<Rightarrow> Package list \<Rightarrow> attr_value stmt list \<times> dep_error list" where
  "GenerateVendor g bfPath vendored =
     (let rules = concat (map (\<lambda>p. fst (generateVendorRules g bfPath p)) vendored);
          lg = concat (map (\<lambda>p. snd (generateVendorRules g bfPath p)) vendored)
      in ((case generateLoad rules of None \<Rightarrow> [] | Some l \<Rightarrow> [l]) @ map RuleCall rules, lg))"

section \<open>Example inputs\<close>

text \<open>
  Stand-ins for the resolvers that are taken as parameters: the structured one strips the
  module prefix, the other two fail.
\<close>

definition exampleResolvers :: resolvers where
  "exampleResolvers =
     \<lparr>structured_resolve = (\<lambda>goPrefix importpath dir.
         Inr \<lparr>label_repo = [], label_pkg = drop (Suc (length goPrefix)) importpath,
              label_name = defaultLibName\<rparr>),
      external_resolve = (\<lambda>importpath dir. Inl ''no external repository''),
      uno_resolve = (\<lambda>roots importpath dir. Inl ''no sub-project'')\<rparr>"

definition exampleConfig :: "dep_mode \<Rightarrow> Config" where
  "exampleConfig m =
     \<lparr>GoPrefix = ''example.com/repo'', DepMode = m,
      Dirs = [''/repo/sub1/nested'', ''/repo/sub1''], RepoRoot = ''/repo''\<rparr>"

definition oneLibrary :: "attr_value rule list" where
  "oneLibrary = [newRule ''go_library'' [] [(''name'', StringValue ''go_default_library'')]]"

definition libraryAndTest :: "attr_value rule list" where
  "libraryAndTest =
     [newRule ''go_test'' [] [(''name'', StringValue ''go_default_test'')],
      newRule ''filegroup'' [] [(''name'', StringValue ''go_default_library_protos'')],
      newRule ''go_library'' [] [(''name'', StringValue ''go_default_library'')]]"

text \<open>
  The order in which \<open>generateRule\<close> appends attributes, and the property that a rule's
  attribute names start with \<open>name\<close> and are a subsequence of that order.
\<close>

definition generatedAttrOrder :: "string list" where
  "generatedAttrOrder =
     [''name'', ''srcs'', ''clinkopts'', ''copts'', ''data'', ''library'', ''visibility'', ''deps'']"

definition nameFirstInOrder :: "'v rule \<Rightarrow> bool" where
  "nameFirstInOrder r =
     (attrKeys r \<noteq> [] \<and> hd (attrKeys r) = ''name'' \<and> subseq (attrKeys r) generatedAttrOrder)"

definition exampleGenerator :: generator where
  "exampleGenerator =
     \<lparr>gen_c = exampleConfig ExternalMode,
      gen_r = (\<lambda>importpath dir.
        if importpath = ''example.com/broken'' then Inl ''no such package''
        else vendoredResolver_resolve importpath dir)\<rparr>"

definition noStrings :: PlatformStrings where
  "noStrings = \<lparr>Generic = [], Platform = []\<rparr>"

definition emptyTarget :: Target where
  "emptyTarget = \<lparr>Sources = noStrings, Imports = noStrings, COpts = noStrings, CLinkOpts = noStrings\<rparr>"

definition rootPackage :: Package where
  "rootPackage =
     \<lparr>Dir = ''/repo'', Rel = [], IsCommand = False, Library = emptyTarget,
      CgoLibrary = emptyTarget, Binary = emptyTarget, Test = emptyTarget, XTest = emptyTarget,
      HasPbGo = False, HasTestdata = False, Protos = []\<rparr>"

definition cgoTarget :: Target where
  "cgoTarget =
     \<lparr>Sources = \<lparr>Generic = [''bridge.go''], Platform = [(''linux'', [''bridge_linux.c''])]\<rparr>,
      Imports = \<lparr>Generic = [''example.com/broken'', ''golang.org/x/net'', ''golang.org/x/net''],
                 Platform = [(''linux'', [''golang.org/x/sys''])]\<rparr>,
      COpts = \<lparr>Generic = [''-O2''], Platform = []\<rparr>,
      CLinkOpts = noStrings\<rparr>"

definition cgoPackage :: Package where
  "cgoPackage =
     \<lparr>Dir = ''/repo/a/internal/cmd'', Rel = ''a/internal/cmd'', IsCommand = True,
      Library = emptyTarget, CgoLibrary = cgoTarget, Binary = emptyTarget, Test = emptyTarget,
      XTest = emptyTarget, HasPbGo = False, HasTestdata = True, Protos = []\<rparr>"

text \<open>
  Modelled from the spec: the multi-root resolver is declared outside the files at hand.
  It tries the roots in the order of its list and takes the first that is a prefix of the
  containing directory.
\<close>

definition firstMatchingRoot :: "string list \<Rightarrow> string \<Rightarrow> string option" where
  "firstMatchingRoot roots dir = find (\<lambda>root. hasPrefix dir root) roots"

section \<open>The merge engine\<close>

text \<open>
  Modelled from the spec: the merge engine (package \<open>merger\<close>, function
  \<open>MergeWithExisting\<close>) is not among the files at hand; only its test is. The model
  follows the description of the merge in the specification.

  A build file on disk is a tree of the syntax library. An attribute value there is a
  string, a list, a list with per-platform lists beside it, or a glob; an element of a
  list may bear the trailing preservation marker (\<open># keep\<close> in the test).
\<close>

record elem =
  elem_text :: string
  elem_keep :: bool

datatype expr =
    StringExpr string
  | ListExpr "elem list"
  | SelectExpr "elem list" "(string \<times> string list) list"
  | GlobExpr "string list"

record build_file =
  file_load :: "expr stmt option"
  file_rules :: "expr rule list"

text \<open>
  Modelled from the spec: the generated rules enter the merge as a tree as well. The
  generator writes no comment, so the elements it renders bear no marker.
\<close>

definition plainElem :: "string \<Rightarrow> elem" where
  "plainElem s = \<lparr>elem_text = s, elem_keep = False\<rparr>"

fun render :: "attr_value \<Rightarrow> expr" where
  "render (StringValue s) = StringExpr s"
| "render (ListValue xs) = ListExpr (map plainElem xs)"
| "render (PlatformValue ps) = SelectExpr (map plainElem (Generic ps)) (Platform ps)"
| "render (GlobValue ps) = GlobExpr ps"

definition renderRule :: "attr_value rule \<Rightarrow> expr rule" where
  "renderRule r = \<lparr>Kind = Kind r, Args = Args r, Attrs = map (\<lambda>(k, v). (k, render v)) (Attrs r)\<rparr>"

fun rulesOf :: "'v stmt list \<Rightarrow> 'v rule list" where
  "rulesOf [] = []"
| "rulesOf (Load args # ss) = rulesOf ss"
| "rulesOf (RuleCall r # ss) = r # rulesOf ss"

text \<open>
  Modelled from the spec: rules pair up by identical kind and name. The name of a rule is
  the string under \<open>name\<close>, or the empty string.
\<close>

definition ruleName :: "expr rule \<Rightarrow> string" where
  "ruleName r = (case map_of (Attrs r) ''name'' of Some (StringExpr s) \<Rightarrow> s | _ \<Rightarrow> [])"

definition ruleKey :: "expr rule \<Rightarrow> string \<times> string" where
  "ruleKey r = (Kind r, ruleName r)"

text \<open>
  Modelled from the spec: the catalog of managed kinds, the classification of attributes
  as hand-authored only, and the priority of attribute names are fixed tables the
  specification names without listing them; the merge takes them as a parameter.
\<close>

record merge_policy =
  managedKind :: "string \<Rightarrow> bool"
  handAuthored :: "string \<Rightarrow> bool"
  attrPriority :: "string \<Rightarrow> nat"

text \<open>
  Modelled from the spec: the merge of one attribute. The new value wins, except that
  the marked elements of the existing list are retained whatever the new value is,
  appended after the new elements in their original order. An attribute that only the
  existing rule has is carried over unchanged when it is hand-authored only; otherwise
  the tool no longer computes it, and only its marked elements are retained.
\<close>

fun keptElems :: "expr \<Rightarrow> elem list" where
  "keptElems (ListExpr es) = filter elem_keep es"
| "keptElems (SelectExpr es ov) = filter elem_keep es"
| "keptElems (StringExpr s) = []"
| "keptElems (GlobExpr ps) = []"

fun exprElems :: "expr \<Rightarrow> elem list" where
  "exprElems (ListExpr es) = es"
| "exprElems (SelectExpr es ov) = es"
| "exprElems (StringExpr s) = []"
| "exprElems (GlobExpr ps) = []"

definition keptOf :: "expr rule \<Rightarrow> string \<Rightarrow> elem list" where
  "keptOf t k = (case map_of (Attrs t) k of None \<Rightarrow> [] | Some v \<Rightarrow> keptElems v)"

fun mergeValue :: "elem list \<Rightarrow> expr \<Rightarrow> expr" where
  "mergeValue kept (ListExpr ns) = ListExpr (ns @ kept)"
| "mergeValue kept (SelectExpr ns ov) = SelectExpr (ns @ kept) ov"
| "mergeValue kept (StringExpr s) = (if kept = [] then StringExpr s else ListExpr kept)"
| "mergeValue kept (GlobExpr ps) = (if kept = [] then GlobExpr ps else ListExpr kept)"

definition carry :: "merge_policy \<Rightarrow> string list \<Rightarrow> string \<times> expr \<Rightarrow> (string \<times> expr) option" where
  "carry P newKeys kv =
     (if fst kv \<in> set newKeys then None
      else if handAuthored P (fst kv) then Some kv
      else if keptElems (snd kv) = [] then None
      else Some (fst kv, ListExpr (keptElems (snd kv))))"

text \<open>
  Modelled from the spec: the merge of a matched pair. The attributes of the result
  follow the priority of their names, not the order of either input; the sort is stable.
\<close>

definition mergeRule :: "merge_policy \<Rightarrow> expr rule \<Rightarrow> expr rule \<Rightarrow> expr rule" where
  "mergeRule P t g =
     \<lparr>Kind = Kind t, Args = Args g,
      Attrs = sort_key (\<lambda>kv. attrPriority P (fst kv))
                (map (\<lambda>kv. (fst kv, mergeValue (keptOf t (fst kv)) (snd kv))) (Attrs g)
                 @ List.map_filter (carry P (map fst (Attrs g))) (Attrs t))\<rparr>"

definition insertRule :: "merge_policy \<Rightarrow> expr rule \<Rightarrow> expr rule" where
  "insertRule P g =
     \<lparr>Kind = Kind g, Args = Args g, Attrs = sort_key (\<lambda>kv. attrPriority P (fst kv)) (Attrs g)\<rparr>"

text \<open>
  Modelled from the spec: the existing rules are walked in order. A rule of a managed
  kind that is the first with its kind and name, and for which a generated rule of that
  kind and name exists, is merged with the first such generated rule; every other
  existing rule is kept verbatim in place. The generated rules that match no existing
  rule are inserted after them, their attributes in the order of the priority as well,
  and the load statement is computed anew from the kinds of the final rules.
\<close>

fun mergeExisting ::
  "merge_policy \<Rightarrow> expr rule list \<Rightarrow> (string \<times> string) list \<Rightarrow> expr rule list \<Rightarrow> expr rule list" where
  "mergeExisting P gen seen [] = []"
| "mergeExisting P gen seen (t # ts) =
     (if managedKind P (Kind t) \<and> ruleKey t \<notin> set seen
      then (case find (\<lambda>g. ruleKey g = ruleKey t) gen of
              None \<Rightarrow> t
            | Some g \<Rightarrow> mergeRule P t g)
      else t)
     # mergeExisting P gen (ruleKey t # seen) ts"

definition mergeTrees :: "merge_policy \<Rightarrow> build_file \<Rightarrow> attr_value stmt list \<Rightarrow> build_file" where
  "mergeTrees P T G =
     (let gen = map renderRule (rulesOf G);
          old = file_rules T;
          merged = mergeExisting P gen [] old;
          inserted = map (insertRule P) (filter (\<lambda>g. ruleKey g \<notin> set (map ruleKey old)) gen);
          final = merged @ inserted
      in \<lparr>file_load = generateLoad final, file_rules = final\<rparr>)"

text \<open>
  The tables used in the examples: the kinds the generator emits are managed, the
  attributes the generator never or not always computes are hand-authored only, and the
  priority is the generator's order with \<open>size\<close> after \<open>name\<close>, as the test expects.
\<close>

definition examplePriorityOrder :: "string list" where
  "examplePriorityOrder =
     [''name'', ''size'', ''srcs'', ''clinkopts'', ''copts'', ''data'', ''library'',
      ''visibility'', ''deps'']"

fun indexOf :: "string \<Rightarrow> string list \<Rightarrow> nat" where
  "indexOf k [] = 0"
| "indexOf k (x # xs) = (if k = x then 0 else Suc (indexOf k xs))"

definition examplePolicy :: merge_policy where
  "examplePolicy =
     \<lparr>managedKind = (\<lambda>k. k \<in> set (''filegroup'' # loadableKinds)),
      handAuthored = (\<lambda>k. k \<notin> set [''name'', ''srcs'', ''clinkopts'', ''copts'', ''library'',
                                   ''visibility'', ''deps'']),
      attrPriority = (\<lambda>k. indexOf k examplePriorityOrder)\<rparr>"

text \<open>The first case of the merger's test: the file on disk, the generated file, the result.\<close>

definition keepElem :: "string \<Rightarrow> elem" where
  "keepElem s = \<lparr>elem_text = s, elem_keep = True\<rparr>"

definition oldData :: build_file where
  "oldData =
     \<lparr>file_load = Some (Load [goRulesBzl, ''go_library'', ''go_test'', ''go_binary'']),
      file_rules =
        [\<lparr>Kind = ''go_library'', Args = [],
          Attrs = [(''name'', StringExpr ''go_default_library''),
                   (''srcs'', GlobExpr [''*.go''])]\<rparr>,
         \<lparr>Kind = ''go_test'', Args = [],
          Attrs = [(''name'', StringExpr ''go_default_test''),
                   (''size'', StringExpr ''small''),
                   (''srcs'', ListExpr [keepElem ''gen_test.go'', plainElem ''parse_test.go'']),
                   (''data'', GlobExpr [''testdata/*'']),
                   (''library'', StringExpr '':go_default_library'')]\<rparr>]\<rparr>"

definition newData :: "attr_value stmt list" where
  "newData =
     [Load [goRulesBzl, ''go_test'', ''go_library''],
      RuleCall \<lparr>Kind = ''go_library'', Args = [],
        Attrs = [(''name'', StringValue ''go_default_library''),
                 (''srcs'', ListValue [''lex.go'', ''print.go''])]\<rparr>,
      RuleCall \<lparr>Kind = ''go_test'', Args = [],
        Attrs = [(''name'', StringValue ''go_default_test''),
                 (''srcs'', ListValue [''parse_test.go'', ''print_test.go'']),
                 (''library'', StringValue '':go_default_library'')]\<rparr>]"

definition expected :: build_file where
  "expected =
     \<lparr>file_load = Some (Load [goRulesBzl, ''go_library'', ''go_test'']),
      file_rules =
        [\<lparr>Kind = ''go_library'', Args = [],
          Attrs = [(''name'', StringExpr ''go_default_library''),
                   (''srcs'', ListExpr [plainElem ''lex.go'', plainElem ''print.go''])]\<rparr>,
         \<lparr>Kind = ''go_test'', Args = [],
          Attrs = [(''name'', StringExpr ''go_default_test''),
                   (''size'', StringExpr ''small''),
                   (''srcs'', ListExpr [plainElem ''parse_test.go'', plainElem ''print_test.go'',
                                        keepElem ''gen_test.go'']),
                   (''data'', GlobExpr [''testdata/*'']),
                   (''library'', StringExpr '':go_default_library'')]\<rparr>]\<rparr>"

section \<open>Properties of the resolvers and the generator\<close>

subsection \<open>Resolvers\<close>

text \<open>
  C7. The vendor resolver never returns an error: for every import path and containing
  directory it returns the label whose package is \<open>vendor/\<close> followed by the import path
  and whose name is the default library name.
\<close>

theorem vendoredResolver_total:
  "vendoredResolver_resolve importpath dir =
     Inr \<lparr>label_repo = [], label_pkg = ''vendor/'' @ importpath, label_name = defaultLibName\<rparr>
   \<and> \<not> isl (vendoredResolver_resolve importpath dir)"
  by (simp add: vendoredResolver_resolve_def)

text \<open>
  C6. The resolver a generator is built with sends an import path to the structured
  resolver exactly when the path is the module prefix, starts with the prefix and a
  slash, or starts with \<open>./\<close> or \<open>..\<close>. Every other path goes to the strategy of the
  configured dependency mode: the external resolver in \<open>ExternalMode\<close>, the vendor
  resolver in \<open>VendorMode\<close>, and in \<open>UnoMode\<close> the multi-root resolver with the sorted,
  trimmed directories as its roots; no other mode yields a generator. The resolvers are
  arbitrary, so the equations fix the route, and it is decided from the import path of
  each call alone.
\<close>

theorem composite_dispatch:
  assumes "NewGenerator rs c = Some g"
  shows "(DepMode c = ExternalMode \<or> DepMode c = VendorMode \<or> DepMode c = UnoMode)
     \<and> (\<forall>importpath dir.
          ((importpath = GoPrefix c \<or> prefix (GoPrefix c @ ''/'') importpath
              \<or> prefix ''./'' importpath \<or> prefix ''..'' importpath)
            \<longrightarrow> gen_r g importpath dir = structured_resolve rs (GoPrefix c) importpath dir)
        \<and> (\<not> (importpath = GoPrefix c \<or> prefix (GoPrefix c @ ''/'') importpath
              \<or> prefix ''./'' importpath \<or> prefix ''..'' importpath)
            \<longrightarrow> (DepMode c = ExternalMode
                   \<longrightarrow> gen_r g importpath dir = external_resolve rs importpath dir)
              \<and> (DepMode c = VendorMode
                   \<longrightarrow> gen_r g importpath dir = vendoredResolver_resolve importpath dir)
              \<and> (DepMode c = UnoMode
                   \<longrightarrow> gen_r g importpath dir
                        = uno_resolve rs
                            (sort (map (\<lambda>d. trimPrefix d (path_Clean (RepoRoot c) @ ''/'')) (Dirs c)))
                            importpath dir)))"
proof (cases "DepMode c")
  case ExternalMode
  with assms have g: "g = \<lparr>gen_c = c,
      gen_r = (\<lambda>importpath dir.
        if importpath \<noteq> GoPrefix c \<and> \<not> hasPrefix importpath (GoPrefix c @ ''/'')
           \<and> \<not> isRelative importpath
        then external_resolve rs importpath dir
        else structured_resolve rs (GoPrefix c) importpath dir)\<rparr>"
    by (simp add: NewGenerator_def newModeResolver_def Let_def cong: if_cong)
  show ?thesis
    unfolding g using ExternalMode by (auto simp: hasPrefix_def isRelative_def)
next
  case VendorMode
  with assms have g: "g = \<lparr>gen_c = c,
      gen_r = (\<lambda>importpath dir.
        if importpath \<noteq> GoPrefix c \<and> \<not> hasPrefix importpath (GoPrefix c @ ''/'')
           \<and> \<not> isRelative importpath
        then vendoredResolver_resolve importpath dir
        else structured_resolve rs (GoPrefix c) importpath dir)\<rparr>"
    by (simp add: NewGenerator_def newModeResolver_def Let_def cong: if_cong)
  show ?thesis
    unfolding g using VendorMode by (auto simp: hasPrefix_def isRelative_def)
next
  case UnoMode
  with assms have g: "g = \<lparr>gen_c = c,
      gen_r = (\<lambda>importpath dir.
        if importpath \<noteq> GoPrefix c \<and> \<not> hasPrefix importpath (GoPrefix c @ ''/'')
           \<and> \<not> isRelative importpath
        then uno_resolve rs
               (sort (map (\<lambda>d. trimPrefix d (path_Clean (RepoRoot c) @ ''/'')) (Dirs c)))
               importpath dir
        else structured_resolve rs (GoPrefix c) importpath dir)\<rparr>"
    by (simp add: NewGenerator_def newModeResolver_def Let_def cong: if_cong)
  show ?thesis
    unfolding g using UnoMode by (auto simp: hasPrefix_def isRelative_def)
next
  case OtherMode
  with assms show ?thesis by (simp add: NewGenerator_def newModeResolver_def)
qed

lemma NewGenerator_unknown_mode: "NewGenerator rs c = None \<longleftrightarrow> DepMode c = OtherMode"
  by (cases "DepMode c") (simp_all add: NewGenerator_def newModeResolver_def)

lemma exampleGenerator_exists:
  "m \<noteq> OtherMode \<Longrightarrow>
   NewGenerator exampleResolvers (exampleConfig m)
     = Some (the (NewGenerator exampleResolvers (exampleConfig m)))"
  using NewGenerator_unknown_mode [of exampleResolvers "exampleConfig m"]
  by (cases "NewGenerator exampleResolvers (exampleConfig m)") (simp_all add: exampleConfig_def)

lemma exampleConfig_fields:
  "GoPrefix (exampleConfig m) = ''example.com/repo''" "DepMode (exampleConfig m) = m"
  "sort (map (\<lambda>d. trimPrefix d (path_Clean (RepoRoot (exampleConfig m)) @ ''/'')) (Dirs (exampleConfig m)))
     = [''sub1'', ''sub1/nested'']"
  by (simp_all add: exampleConfig_def) code_simp

theorem composite_dispatch_witness:
  "NewGenerator exampleResolvers (exampleConfig VendorMode)
     = Some (the (NewGenerator exampleResolvers (exampleConfig VendorMode)))
   \<and> NewGenerator exampleResolvers (exampleConfig ExternalMode)
     = Some (the (NewGenerator exampleResolvers (exampleConfig ExternalMode)))
   \<and> NewGenerator exampleResolvers (exampleConfig UnoMode)
     = Some (the (NewGenerator exampleResolvers (exampleConfig UnoMode)))
   \<and> gen_r (the (NewGenerator exampleResolvers (exampleConfig VendorMode))) ''golang.org/x/net'' ''pkg''
       = Inr \<lparr>label_repo = [], label_pkg = ''vendor/golang.org/x/net'', label_name = ''go_default_library''\<rparr>
   \<and> gen_r (the (NewGenerator exampleResolvers (exampleConfig ExternalMode))) ''golang.org/x/net'' ''pkg''
       = Inl ''no external repository''
   \<and> gen_r (the (NewGenerator exampleResolvers (exampleConfig UnoMode))) ''golang.org/x/net'' ''pkg''
       = uno_resolve exampleResolvers [''sub1'', ''sub1/nested''] ''golang.org/x/net'' ''pkg''
   \<and> gen_r (the (NewGenerator exampleResolvers (exampleConfig VendorMode))) ''example.com/repo/sub'' ''pkg''
       = Inr \<lparr>label_repo = [], label_pkg = ''sub'', label_name = ''go_default_library''\<rparr>
   \<and> gen_r (the (NewGenerator exampleResolvers (exampleConfig ExternalMode))) ''example.com/repo'' ''pkg''
       = structured_resolve exampleResolvers ''example.com/repo'' ''example.com/repo'' ''pkg''
   \<and> gen_r (the (NewGenerator exampleResolvers (exampleConfig UnoMode))) ''../sibling'' ''pkg''
       = structured_resolve exampleResolvers ''example.com/repo'' ''../sibling'' ''pkg''"
proof -
  have hv: "NewGenerator exampleResolvers (exampleConfig VendorMode)
     = Some (the (NewGenerator exampleResolvers (exampleConfig VendorMode)))"
    by (rule exampleGenerator_exists) simp
  have he: "NewGenerator exampleResolvers (exampleConfig ExternalMode)
     = Some (the (NewGenerator exampleResolvers (exampleConfig ExternalMode)))"
    by (rule exampleGenerator_exists) simp
  have hu: "NewGenerator exampleResolvers (exampleConfig UnoMode)
     = Some (the (NewGenerator exampleResolvers (exampleConfig UnoMode)))"
    by (rule exampleGenerator_exists) simp
  note dv = composite_dispatch [OF hv, unfolded exampleConfig_fields, THEN conjunct2, rule_format]
  note de = composite_dispatch [OF he, unfolded exampleConfig_fields, THEN conjunct2, rule_format]
  note du = composite_dispatch [OF hu, unfolded exampleConfig_fields, THEN conjunct2, rule_format]
  have 1: "gen_r (the (NewGenerator exampleResolvers (exampleConfig VendorMode))) ''golang.org/x/net'' ''pkg''
       = Inr \<lparr>label_repo = [], label_pkg = ''vendor/golang.org/x/net'', label_name = ''go_default_library''\<rparr>"
    using dv [of "''golang.org/x/net''" "''pkg''"]
    by (simp add: vendoredResolver_resolve_def defaultLibName_def)
  have 2: "gen_r (the (NewGenerator exampleResolvers (exampleConfig ExternalMode))) ''golang.org/x/net'' ''pkg''
       = Inl ''no external repository''"
    using de [of "''golang.org/x/net''" "''pkg''"] by (simp add: exampleResolvers_def)
  have 3: "gen_r (the (NewGenerator exampleResolvers (exampleConfig UnoMode))) ''golang.org/x/net'' ''pkg''
       = uno_resolve exampleResolvers [''sub1'', ''sub1/nested''] ''golang.org/x/net'' ''pkg''"
    using du [of "''golang.org/x/net''" "''pkg''"] by simp
  have 4: "gen_r (the (NewGenerator exampleResolvers (exampleConfig VendorMode))) ''example.com/repo/sub'' ''pkg''
       = Inr \<lparr>label_repo = [], label_pkg = ''sub'', label_name = ''go_default_library''\<rparr>"
    using dv [of "''example.com/repo/sub''" "''pkg''"]
    by (simp add: exampleResolvers_def defaultLibName_def)
  have 5: "gen_r (the (NewGenerator exampleResolvers (exampleConfig ExternalMode))) ''example.com/repo'' ''pkg''
       = structured_resolve exampleResolvers ''example.com/repo'' ''example.com/repo'' ''pkg''"
    using de [of "''example.com/repo''" "''pkg''"] by simp
  have 6: "gen_r (the (NewGenerator exampleResolvers (exampleConfig UnoMode))) ''../sibling'' ''pkg''
       = structured_resolve exampleResolvers ''example.com/repo'' ''../sibling'' ''pkg''"
    using du [of "''../sibling''" "''pkg''"] by simp
  from hv he hu 1 2 3 4 5 6 show ?thesis by blast
qed

subsection \<open>Visibility of internal packages\<close>

lemma lastIndex_ge: "- 1 \<le> lastIndex s sub"
  by (induction s) (auto simp: Let_def)

lemma lastIndex_none: "lastIndex s sub = - 1 \<longleftrightarrow> \<not> sublist sub s"
proof (induction s)
  case Nil
  then show ?case by auto
next
  case (Cons c s)
  have "- 1 \<le> lastIndex s sub" by (rule lastIndex_ge)
  with Cons show ?case
    by (auto simp: Let_def sublist_Cons_right)
qed

lemma lastIndex_last:
  "\<not> sublist sub (tl (sub @ post)) \<Longrightarrow> lastIndex (pre @ sub @ post) sub = int (length pre)"
proof (induction pre)
  case Nil
  show ?case
  proof (cases "sub @ post")
    case Nil
    then show ?thesis by simp
  next
    case (Cons c s')
    with Nil have "lastIndex s' sub = - 1" by (simp add: lastIndex_none)
    moreover have "prefix sub (c # s')" using Cons by (metis prefixI)
    ultimately show ?thesis using Cons by (simp add: Let_def)
  qed
next
  case (Cons c pre)
  then show ?case by (simp add: Let_def)
qed

lemma splitOn_nonempty: "splitOn c xs \<noteq> []"
  by (induction xs) (auto split: list.splits)

lemma splitOn_append_sep: "splitOn c (xs @ c # ys) = splitOn c xs @ splitOn c ys"
proof (induction xs)
  case Nil
  show ?case by simp
next
  case (Cons x xs)
  obtain w ws where "splitOn c xs = w # ws"
    using splitOn_nonempty [of c xs] by (cases "splitOn c xs") auto
  with Cons show ?case by simp
qed

lemma splitOn_no_sep: "c \<notin> set seg \<Longrightarrow> splitOn c seg = [seg]"
  by (induction seg) auto

lemma internal_segment_of_infix:
  assumes "sublist ''/internal/'' rel"
  shows "''internal'' \<in> set (splitOn CHR ''/'' rel)"
proof -
  from assms obtain pre post where "rel = pre @ ''/internal/'' @ post"
    by (auto simp: sublist_def)
  then have "rel = pre @ CHR ''/'' # (''internal'' @ CHR ''/'' # post)" by simp
  then have "splitOn CHR ''/'' rel
      = splitOn CHR ''/'' pre @ splitOn CHR ''/'' ''internal'' @ splitOn CHR ''/'' post"
    by (simp only: splitOn_append_sep)
  moreover have "splitOn CHR ''/'' ''internal'' = [''internal'']"
    by (rule splitOn_no_sep) simp
  ultimately show ?thesis by simp
qed

lemma internal_segment_of_prefix:
  assumes "prefix ''internal/'' rel"
  shows "''internal'' \<in> set (splitOn CHR ''/'' rel)"
proof -
  from assms obtain post where "rel = ''internal/'' @ post"
    by (auto simp: prefix_def)
  then have "rel = ''internal'' @ CHR ''/'' # post" by simp
  then have "splitOn CHR ''/'' rel = splitOn CHR ''/'' ''internal'' @ splitOn CHR ''/'' post"
    by (simp only: splitOn_append_sep)
  moreover have "splitOn CHR ''/'' ''internal'' = [''internal'']"
    by (rule splitOn_no_sep) simp
  ultimately show ?thesis by simp
qed

text \<open>
  C5 does not hold of the code. The path \<open>a/internal\<close> has the segment \<open>internal\<close> below
  the root, so its visibility should be \<open>//a:__subpackages__\<close>, as it is for the path
  \<open>a/internal/c\<close> below it; the code keeps the default. Likewise the path \<open>internal\<close> has
  \<open>internal\<close> as its first segment and keeps the default, while \<open>internal/c\<close> is narrowed
  to \<open>//:__subpackages__\<close>.
\<close>

theorem checkInternalVisibility_last_segment:
  "''internal'' \<in> set (tl (splitOn CHR ''/'' ''a/internal''))
   \<and> checkInternalVisibility ''a/internal'' ''//visibility:public'' = ''//visibility:public''
   \<and> checkInternalVisibility ''a/internal/c'' ''//visibility:public'' = ''//a:__subpackages__''
   \<and> hd (splitOn CHR ''/'' ''internal'') = ''internal''
   \<and> checkInternalVisibility ''internal'' ''//visibility:public'' = ''//visibility:public''
   \<and> checkInternalVisibility ''internal/c'' ''//visibility:public'' = ''//:__subpackages__''"
  by (simp add: checkInternalVisibility_def hasPrefix_def)

text \<open>
  The cases the code does decide. When the path holds \<open>/internal/\<close>, the visibility is
  \<open>//\<close>, the part of the path before the last \<open>/internal/\<close>, and \<open>:__subpackages__\<close>.
  Otherwise, when the path starts with \<open>internal/\<close>, it is \<open>//:__subpackages__\<close>. When no
  segment of the path is \<open>internal\<close>, the given visibility is kept.
\<close>

lemma checkInternalVisibility_cases:
  "(\<forall>pre post. rel = pre @ ''/internal/'' @ post
        \<and> \<not> sublist ''/internal/'' (tl (''/internal/'' @ post))
      \<longrightarrow> checkInternalVisibility rel v = ''//'' @ pre @ '':__subpackages__'')
   \<and> (\<not> sublist ''/internal/'' rel \<and> prefix ''internal/'' rel
      \<longrightarrow> checkInternalVisibility rel v = ''//:__subpackages__'')
   \<and> (''internal'' \<notin> set (splitOn CHR ''/'' rel)
      \<longrightarrow> checkInternalVisibility rel v = v)"
proof (intro conjI allI impI)
  fix pre post
  assume h: "rel = pre @ ''/internal/'' @ post
    \<and> \<not> sublist ''/internal/'' (tl (''/internal/'' @ post))"
  then have "lastIndex rel ''/internal/'' = int (length pre)"
    using lastIndex_last [of "''/internal/''" post pre] by simp
  with h show "checkInternalVisibility rel v = ''//'' @ pre @ '':__subpackages__''"
    by (simp add: checkInternalVisibility_def)
next
  assume "\<not> sublist ''/internal/'' rel \<and> prefix ''internal/'' rel"
  then show "checkInternalVisibility rel v = ''//:__subpackages__''"
    using lastIndex_none [of rel "''/internal/''"]
    by (simp add: checkInternalVisibility_def hasPrefix_def)
next
  assume "''internal'' \<notin> set (splitOn CHR ''/'' rel)"
  then have "\<not> sublist ''/internal/'' rel" and "\<not> prefix ''internal/'' rel"
    using internal_segment_of_infix internal_segment_of_prefix by blast+
  then show "checkInternalVisibility rel v = v"
    using lastIndex_none [of rel "''/internal/''"]
    by (simp add: checkInternalVisibility_def hasPrefix_def)
qed

lemma no_internal_examples: "\<not> sublist ''/internal/'' ''internal/c''"
  by (simp add: sublist_code)

lemma checkInternalVisibility_examples:
  "(''a/b/internal/c'' = ''a/b'' @ ''/internal/'' @ ''c''
      \<and> \<not> sublist ''/internal/'' (tl (''/internal/'' @ ''c''))
      \<and> checkInternalVisibility ''a/b/internal/c'' ''//visibility:public'' = ''//a/b:__subpackages__'')
   \<and> (\<not> sublist ''/internal/'' ''internal/c'' \<and> prefix ''internal/'' ''internal/c''
      \<and> checkInternalVisibility ''internal/c'' ''//visibility:public'' = ''//:__subpackages__'')
   \<and> (''internal'' \<notin> set (splitOn CHR ''/'' ''a/b'')
      \<and> checkInternalVisibility ''a/b'' ''//visibility:public'' = ''//visibility:public'')"
proof -
  have a: "''a/b/internal/c'' = ''a/b'' @ ''/internal/'' @ ''c''
      \<and> \<not> sublist ''/internal/'' (tl (''/internal/'' @ ''c''))"
    using no_internal_examples by simp
  have b: "\<not> sublist ''/internal/'' ''internal/c'' \<and> prefix ''internal/'' ''internal/c''"
    using no_internal_examples by simp
  have c: "''internal'' \<notin> set (splitOn CHR ''/'' ''a/b'')"
    by simp
  from a checkInternalVisibility_cases [of "''a/b/internal/c''" "''//visibility:public''"]
  have 1: "checkInternalVisibility ''a/b/internal/c'' ''//visibility:public'' = ''//'' @ ''a/b'' @ '':__subpackages__''"
    by blast
  from b checkInternalVisibility_cases [of "''internal/c''" "''//visibility:public''"]
  have 2: "checkInternalVisibility ''internal/c'' ''//visibility:public'' = ''//:__subpackages__''"
    by blast
  from c checkInternalVisibility_cases [of "''a/b''" "''//visibility:public''"]
  have 3: "checkInternalVisibility ''a/b'' ''//visibility:public'' = ''//visibility:public''"
    by blast
  from a b c 1 2 3 show ?thesis by simp
qed

subsection \<open>The load statement\<close>

text \<open>
  C2, as the claim states it, fails: with exactly one loadable kind among the rules, here
  one \<open>go_library\<close>, a load statement naming that kind is emitted.
\<close>

theorem generateLoad_single_kind_counterexample:
  "card (set (map Kind oneLibrary) \<inter> set loadableKinds) = 1
   \<and> generateLoad oneLibrary = Some (Load [goRulesBzl, ''go_library''])"
  by (simp add: oneLibrary_def newRule_def loadableKinds_def generateLoad_def)

lemma sorted_loadableKinds: "sorted loadableKinds \<and> distinct loadableKinds"
  by (simp add: loadableKinds_def)

text \<open>
  C2, amended. No load statement is emitted exactly when none of the rules has a loadable
  kind. A load statement that is emitted names the module path first and then at least
  one kind; the kinds are the loadable kinds of the rules, each once, in the order of the
  catalog, which is sorted.
\<close>

theorem generateLoad_minimal:
  "(generateLoad rs = None \<longleftrightarrow> set (map Kind rs) \<inter> set loadableKinds = {})
   \<and> (\<forall>l. generateLoad rs = Some l \<longrightarrow>
        (\<exists>ks. l = Load (goRulesBzl # ks) \<and> ks \<noteq> []
           \<and> set ks = set (map Kind rs) \<inter> set loadableKinds
           \<and> subseq ks loadableKinds \<and> sorted ks \<and> distinct ks))"
proof -
  let ?ks = "filter (\<lambda>k. k \<in> set (map Kind rs)) loadableKinds"
  have e: "generateLoad rs = (if ?ks = [] then None else Some (Load (goRulesBzl # ?ks)))"
    by (simp add: generateLoad_def Let_def)
  have s: "set ?ks = set (map Kind rs) \<inter> set loadableKinds" by auto
  have "sorted ?ks" using sorted_loadableKinds by (simp add: sorted_wrt_filter)
  moreover have "distinct ?ks" using sorted_loadableKinds by simp
  moreover have "subseq ?ks loadableKinds" by simp
  moreover have "?ks = [] \<longleftrightarrow> set (map Kind rs) \<inter> set loadableKinds = {}"
    using s by (metis set_empty)
  ultimately show ?thesis unfolding e using s by auto
qed

theorem generateLoad_minimal_witness:
  "generateLoad libraryAndTest = Some (Load [goRulesBzl, ''go_library'', ''go_test''])
   \<and> (\<exists>ks. Load [goRulesBzl, ''go_library'', ''go_test''] = (Load (goRulesBzl # ks) :: attr_value stmt)
         \<and> ks \<noteq> []
         \<and> set ks = set (map Kind libraryAndTest) \<inter> set loadableKinds
         \<and> subseq ks loadableKinds \<and> sorted ks \<and> distinct ks)"
proof -
  have h: "generateLoad libraryAndTest = Some (Load [goRulesBzl, ''go_library'', ''go_test''])"
    by (simp add: libraryAndTest_def newRule_def loadableKinds_def generateLoad_def)
  with generateLoad_minimal [of libraryAndTest] show ?thesis by blast
qed

subsection \<open>The attributes of a generated rule\<close>

lemma if_append: "(if b then a @ [x] else a) = a @ (if b then [x] else [])"
  by simp

lemma generateRule_attrs:
  "Attrs (fst (generateRule g rel kind nm visibility library hasTestdata target)) =
     [(''name'', StringValue nm)]
      @ (if \<not> PS_IsEmpty (Sources target) then [(''srcs'', PlatformValue (Sources target))] else [])
      @ (if \<not> PS_IsEmpty (CLinkOpts target) then [(''clinkopts'', PlatformValue (CLinkOpts target))] else [])
      @ (if \<not> PS_IsEmpty (COpts target) then [(''copts'', PlatformValue (COpts target))] else [])
      @ (if hasTestdata then [(''data'', GlobValue [''testdata/**''])] else [])
      @ (if library \<noteq> [] then [(''library'', StringValue ('':'' @ library))] else [])
      @ (if visibility \<noteq> [] then [(''visibility'', ListValue [visibility])] else [])
      @ (if \<not> PS_IsEmpty (Imports target)
         then [(''deps'', PlatformValue (fst (dependencies g (Imports target) rel)))] else [])"
proof (cases "PS_IsEmpty (Imports target)")
  case True
  then show ?thesis
    unfolding generateRule_def Let_def if_append
    by (simp add: newRule_def cong: if_cong split del: if_split)
next
  case False
  then show ?thesis
    unfolding generateRule_def Let_def if_append
    by (simp add: newRule_def split_beta cong: if_cong split del: if_split)
qed

lemma generateRule_bf_attrs:
  assumes "bfRel = relPath bfPath (path_Join (RepoRoot (gen_c g)) rel)"
  shows "Attrs (fst (generateRule_bf g bfPath rel kind nm visibility library hasTestdata target)) =
     [(''name'', StringValue (if bfRel \<noteq> [] then bfRel else nm))]
      @ (if \<not> PS_IsEmpty (Sources target)
         then [(''srcs'', PlatformValue
                 (if bfRel \<noteq> []
                  then fst (PS_Map (\<lambda>s. (Inr (bfRel @ ''/'' @ s) :: dep_error + string)) (Sources target))
                  else Sources target))]
         else [])
      @ (if \<not> PS_IsEmpty (CLinkOpts target) then [(''clinkopts'', PlatformValue (CLinkOpts target))] else [])
      @ (if \<not> PS_IsEmpty (COpts target) then [(''copts'', PlatformValue (COpts target))] else [])
      @ (if hasTestdata
         then [(''data'', GlobValue (if bfRel \<noteq> [] then [bfRel @ ''/testdata/**''] else [''testdata/**'']))]
         else [])
      @ (if library \<noteq> [] then [(''library'', StringValue ('':'' @ library))] else [])
      @ (if visibility \<noteq> [] then [(''visibility'', ListValue [visibility])] else [])
      @ (if \<not> PS_IsEmpty (Imports target)
         then [(''deps'', PlatformValue (fst (dependencies g (Imports target) rel)))] else [])"
proof (cases "PS_IsEmpty (Imports target)")
  case True
  then show ?thesis
    unfolding generateRule_bf_def Let_def if_append assms [symmetric]
    by (cases "bfRel = []") (simp_all add: newRule_def cong: if_cong split del: if_split)
next
  case False
  then show ?thesis
    unfolding generateRule_bf_def Let_def if_append assms [symmetric]
    by (cases "bfRel = []") (simp_all add: newRule_def split_beta cong: if_cong split del: if_split)
qed

lemma generateRule_kind:
  "Kind (fst (generateRule g rel kind nm visibility library hasTestdata target)) = kind"
  unfolding generateRule_def Let_def
  by (cases "PS_IsEmpty (Imports target)")
     (simp_all add: newRule_def split_beta cong: if_cong split del: if_split)

lemma generateRule_bf_kind:
  "Kind (fst (generateRule_bf g bfPath rel kind nm visibility library hasTestdata target)) = kind"
  unfolding generateRule_bf_def Let_def
  by (cases "PS_IsEmpty (Imports target)")
     (simp_all add: newRule_def split_beta cong: if_cong split del: if_split)

lemma generateRule_log:
  "snd (generateRule g rel kind nm visibility library hasTestdata target) =
     (if \<not> PS_IsEmpty (Imports target) then snd (dependencies g (Imports target) rel) else [])"
  unfolding generateRule_def Let_def
  by (cases "PS_IsEmpty (Imports target)")
     (simp_all add: newRule_def split_beta cong: if_cong split del: if_split)

lemma subseq_flag: "subseq ys zs \<Longrightarrow> subseq ((if b then [x] else []) @ ys) (x # zs)"
  by (cases b) auto

lemma subseq_flag_last: "subseq (if b then [x] else []) [x]"
  by (cases b) simp_all

lemma map_fst_flag: "map fst (if b then [(k, v)] else []) = (if b then [k] else [])"
  by simp

lemma ordered_flags:
  assumes "Attrs r =
     [(''name'', v1)] @ (if b2 then [(''srcs'', v2)] else []) @ (if b3 then [(''clinkopts'', v3)] else [])
      @ (if b4 then [(''copts'', v4)] else []) @ (if b5 then [(''data'', v5)] else [])
      @ (if b6 then [(''library'', v6)] else []) @ (if b7 then [(''visibility'', v7)] else [])
      @ (if b8 then [(''deps'', v8)] else [])"
  shows "nameFirstInOrder r"
proof -
  have k: "attrKeys r =
     ''name'' # ((if b2 then [''srcs''] else []) @ (if b3 then [''clinkopts''] else [])
      @ (if b4 then [''copts''] else []) @ (if b5 then [''data''] else [])
      @ (if b6 then [''library''] else []) @ (if b7 then [''visibility''] else [])
      @ (if b8 then [''deps''] else []))"
    unfolding attrKeys_def assms map_append map_fst_flag by simp
  have "subseq ((if b2 then [''srcs''] else []) @ (if b3 then [''clinkopts''] else [])
      @ (if b4 then [''copts''] else []) @ (if b5 then [''data''] else [])
      @ (if b6 then [''library''] else []) @ (if b7 then [''visibility''] else [])
      @ (if b8 then [''deps''] else []))
     [''srcs'', ''clinkopts'', ''copts'', ''data'', ''library'', ''visibility'', ''deps'']"
    by (intro subseq_flag subseq_flag_last)
  then show ?thesis
    unfolding nameFirstInOrder_def k generatedAttrOrder_def by simp
qed

lemma generateRule_ordered:
  "nameFirstInOrder (fst (generateRule g rel kind nm visibility library hasTestdata target))"
  by (rule ordered_flags [OF generateRule_attrs])

lemma generateRule_bf_ordered:
  "nameFirstInOrder (fst (generateRule_bf g bfPath rel kind nm visibility library hasTestdata target))"
  by (rule ordered_flags [OF generateRule_bf_attrs [OF refl]])

lemma map_of_visibility_flags:
  assumes "Attrs r =
     [(''name'', v1)] @ (if b2 then [(''srcs'', v2)] else []) @ (if b3 then [(''clinkopts'', v3)] else [])
      @ (if b4 then [(''copts'', v4)] else []) @ (if b5 then [(''data'', v5)] else [])
      @ (if b6 then [(''library'', v6)] else []) @ (if b7 then [(''visibility'', v7)] else [])
      @ (if b8 then [(''deps'', v8)] else [])"
  shows "map_of (Attrs r) ''visibility'' = (if b7 then Some v7 else None)"
  unfolding assms by (simp add: map_add_def)

lemma map_of_deps_flags:
  assumes "Attrs r =
     [(''name'', v1)] @ (if b2 then [(''srcs'', v2)] else []) @ (if b3 then [(''clinkopts'', v3)] else [])
      @ (if b4 then [(''copts'', v4)] else []) @ (if b5 then [(''data'', v5)] else [])
      @ (if b6 then [(''library'', v6)] else []) @ (if b7 then [(''visibility'', v7)] else [])
      @ (if b8 then [(''deps'', v8)] else [])"
  shows "map_of (Attrs r) ''deps'' = (if b8 then Some v8 else None)"
  unfolding assms by (simp add: map_add_def)

lemma generateRule_visibility:
  "map_of (Attrs (fst (generateRule g rel kind nm visibility library hasTestdata target))) ''visibility''
     = (if visibility \<noteq> [] then Some (ListValue [visibility]) else None)"
  by (rule map_of_visibility_flags [OF generateRule_attrs])

lemma generateRule_bf_visibility:
  "map_of (Attrs (fst (generateRule_bf g bfPath rel kind nm visibility library hasTestdata target))) ''visibility''
     = (if visibility \<noteq> [] then Some (ListValue [visibility]) else None)"
  by (rule map_of_visibility_flags [OF generateRule_bf_attrs [OF refl]])

lemma generateRule_deps:
  "map_of (Attrs (fst (generateRule g rel kind nm visibility library hasTestdata target))) ''deps''
     = (if \<not> PS_IsEmpty (Imports target)
        then Some (PlatformValue (fst (dependencies g (Imports target) rel))) else None)"
  by (rule map_of_deps_flags [OF generateRule_attrs])

subsection \<open>The rules of a package\<close>

lemma set_appendRule: "set (appendRule rules r) = set rules \<union> set_option r"
  by (cases r) (simp_all add: appendRule_def)

lemma generateCgoLib_rule:
  assumes "r \<in> set_option (fst (snd (generateCgoLib g pkg)))"
  shows "r = fst (generateRule g (Rel pkg) ''cgo_library'' defaultCgoLibName
                    ''//visibility:private'' [] False (CgoLibrary pkg))"
  using assms by (simp add: generateCgoLib_def split_beta split: if_splits)

lemma generateLib_rule:
  assumes "r \<in> set_option (fst (snd (generateLib g pkg cgoName)))"
  shows "\<exists>vis. r = fst (generateRule g (Rel pkg) ''go_library'' defaultLibName vis cgoName
                          False (Library pkg))"
  using assms by (auto simp: generateLib_def split_beta Let_def split: if_splits)

lemma generateBin_rule:
  assumes "r \<in> set_option (fst (generateBin g pkg library))"
  shows "\<exists>nm vis. r = fst (generateRule g (Rel pkg) ''go_binary'' nm vis library False (Binary pkg))"
  using assms by (auto simp: generateBin_def split_beta Let_def split: if_splits)

lemma generateTest_rule:
  assumes "r \<in> set_option (fst (generateTest g pkg library))"
  shows "\<exists>nm. r = fst (generateRule g (Rel pkg) ''go_test'' nm [] library (HasTestdata pkg) (Test pkg))"
  using assms by (auto simp: generateTest_def split_beta Let_def split: if_splits)

lemma generateXTest_rule:
  assumes "r \<in> set_option (fst (generateXTest g pkg library))"
  shows "\<exists>nm. r = fst (generateRule g (Rel pkg) ''go_test'' nm [] [] (HasTestdata pkg) (XTest pkg))"
  using assms by (auto simp: generateXTest_def split_beta Let_def split: if_splits)

lemma generateRules_cases:
  assumes "r \<in> set (fst (generateRules g pkg))"
  shows "r = newRule ''go_prefix'' [GoPrefix (gen_c g)] []
     \<or> filegroup pkg = Some r
     \<or> (\<exists>kind nm vis lib ht tgt.
           r = fst (generateRule g (Rel pkg) kind nm vis lib ht tgt)
           \<and> (kind = ''cgo_library'' \<longrightarrow> vis = ''//visibility:private''))"
proof -
  let ?cgo = "fst (generateCgoLib g pkg)"
  let ?lib = "fst (generateLib g pkg ?cgo)"
  from assms have "r \<in> set (if Rel pkg = [] then [newRule ''go_prefix'' [GoPrefix (gen_c g)] []] else [])
      \<or> r \<in> set_option (fst (snd (generateCgoLib g pkg)))
      \<or> r \<in> set_option (fst (snd (generateLib g pkg ?cgo)))
      \<or> r \<in> set_option (fst (generateBin g pkg ?lib))
      \<or> r \<in> set_option (filegroup pkg)
      \<or> r \<in> set_option (fst (generateTest g pkg ?lib))
      \<or> r \<in> set_option (fst (generateXTest g pkg ?lib))"
    unfolding generateRules_def Let_def split_beta fst_conv set_appendRule by blast
  then consider
      (prefix) "r = newRule ''go_prefix'' [GoPrefix (gen_c g)] []"
    | (cgo) "r \<in> set_option (fst (snd (generateCgoLib g pkg)))"
    | (lib) "r \<in> set_option (fst (snd (generateLib g pkg ?cgo)))"
    | (bin) "r \<in> set_option (fst (generateBin g pkg ?lib))"
    | (fg) "filegroup pkg = Some r"
    | (test) "r \<in> set_option (fst (generateTest g pkg ?lib))"
    | (xtest) "r \<in> set_option (fst (generateXTest g pkg ?lib))"
    by (auto split: if_splits)
  then show ?thesis
  proof cases
    case prefix
    then show ?thesis by simp
  next
    case cgo
    from generateCgoLib_rule [OF cgo] show ?thesis by blast
  next
    case lib
    from generateLib_rule [OF lib] show ?thesis by fastforce
  next
    case bin
    from generateBin_rule [OF bin] show ?thesis by fastforce
  next
    case fg
    then show ?thesis by simp
  next
    case test
    from generateTest_rule [OF test] show ?thesis by fastforce
  next
    case xtest
    from generateXTest_rule [OF xtest] show ?thesis by fastforce
  qed
qed

lemma generateCgoLib_bf_rule:
  assumes "r \<in> set_option (fst (snd (generateCgoLib_bf g bfPath pkg)))"
  shows "r = fst (generateRule_bf g bfPath (Rel pkg) ''cgo_library'' defaultCgoLibName
                    ''//visibility:private'' [] False (CgoLibrary pkg))"
  using assms by (simp add: generateCgoLib_bf_def split_beta split: if_splits)

lemma generateLib_bf_rule:
  assumes "r \<in> set_option (fst (snd (generateLib_bf g bfPath pkg cgoName)))"
  shows "\<exists>vis. r = fst (generateRule_bf g bfPath (Rel pkg) ''go_library'' defaultLibName vis cgoName
                          False (Library pkg))"
  using assms by (auto simp: generateLib_bf_def split_beta Let_def split: if_splits)

lemma generateBin_bf_rule:
  assumes "r \<in> set_option (fst (generateBin_bf g bfPath pkg library))"
  shows "\<exists>nm vis. r = fst (generateRule_bf g bfPath (Rel pkg) ''go_binary'' nm vis library False
                             (Binary pkg))"
  using assms by (auto simp: generateBin_bf_def split_beta Let_def split: if_splits)

lemma generateTest_bf_rule:
  assumes "r \<in> set_option (fst (generateTest_bf g bfPath pkg library))"
  shows "\<exists>nm. r = fst (generateRule_bf g bfPath (Rel pkg) ''go_test'' nm [] library
                         (HasTestdata pkg) (Test pkg))"
  using assms by (auto simp: generateTest_bf_def split_beta Let_def split: if_splits)

lemma generateXTest_bf_rule:
  assumes "r \<in> set_option (fst (generateXTest_bf g bfPath pkg library))"
  shows "\<exists>nm. r = fst (generateRule_bf g bfPath (Rel pkg) ''go_test'' nm [] []
                         (HasTestdata pkg) (XTest pkg))"
  using assms by (auto simp: generateXTest_bf_def split_beta Let_def split: if_splits)

lemma generateRules_bf_cases:
  assumes "r \<in> set (fst (generateRules_bf g bfPath pkg))"
  shows "r = newRule ''go_prefix'' [GoPrefix (gen_c g)] []
     \<or> filegroup_bf bfPath pkg = Some r
     \<or> (\<exists>kind nm vis lib ht tgt.
           r = fst (generateRule_bf g bfPath (Rel pkg) kind nm vis lib ht tgt)
           \<and> (kind = ''cgo_library'' \<longrightarrow> vis = ''//visibility:private''))"
proof -
  let ?cgo = "fst (generateCgoLib_bf g bfPath pkg)"
  let ?lib = "fst (generateLib_bf g bfPath pkg ?cgo)"
  from assms have "r \<in> set (if Rel pkg = [] then [newRule ''go_prefix'' [GoPrefix (gen_c g)] []] else [])
      \<or> r \<in> set_option (fst (snd (generateCgoLib_bf g bfPath pkg)))
      \<or> r \<in> set_option (fst (snd (generateLib_bf g bfPath pkg ?cgo)))
      \<or> r \<in> set_option (fst (generateBin_bf g bfPath pkg ?lib))
      \<or> r \<in> set_option (filegroup_bf bfPath pkg)
      \<or> r \<in> set_option (fst (generateTest_bf g bfPath pkg ?lib))
      \<or> r \<in> set_option (fst (generateXTest_bf g bfPath pkg ?lib))"
    unfolding generateRules_bf_def Let_def split_beta fst_conv set_appendRule by blast
  then consider
      (prefix) "r = newRule ''go_prefix'' [GoPrefix (gen_c g)] []"
    | (cgo) "r \<in> set_option (fst (snd (generateCgoLib_bf g bfPath pkg)))"
    | (lib) "r \<in> set_option (fst (snd (generateLib_bf g bfPath pkg ?cgo)))"
    | (bin) "r \<in> set_option (fst (generateBin_bf g bfPath pkg ?lib))"
    | (fg) "filegroup_bf bfPath pkg = Some r"
    | (test) "r \<in> set_option (fst (generateTest_bf g bfPath pkg ?lib))"
    | (xtest) "r \<in> set_option (fst (generateXTest_bf g bfPath pkg ?lib))"
    by (auto split: if_splits)
  then show ?thesis
  proof cases
    case prefix
    then show ?thesis by simp
  next
    case cgo
    from generateCgoLib_bf_rule [OF cgo] show ?thesis by blast
  next
    case lib
    from generateLib_bf_rule [OF lib] show ?thesis by fastforce
  next
    case bin
    from generateBin_bf_rule [OF bin] show ?thesis by fastforce
  next
    case fg
    then show ?thesis by simp
  next
    case test
    from generateTest_bf_rule [OF test] show ?thesis by fastforce
  next
    case xtest
    from generateXTest_bf_rule [OF xtest] show ?thesis by fastforce
  qed
qed

lemma generateVendorRules_cases:
  assumes "r \<in> set (fst (generateVendorRules g bfPath pkg))"
  shows "filegroup_bf bfPath pkg = Some r
     \<or> (\<exists>kind nm vis lib ht tgt.
           r = fst (generateRule_bf g bfPath (Rel pkg) kind nm vis lib ht tgt)
           \<and> (kind = ''cgo_library'' \<longrightarrow> vis = ''//visibility:private''))"
proof -
  let ?cgo = "fst (generateCgoLib_bf g bfPath pkg)"
  from assms have "r \<in> set_option (fst (snd (generateCgoLib_bf g bfPath pkg)))
      \<or> r \<in> set_option (fst (snd (generateLib_bf g bfPath pkg ?cgo)))
      \<or> r \<in> set_option (filegroup_bf bfPath pkg)"
    unfolding generateVendorRules_def Let_def split_beta fst_conv set_appendRule by simp
  then consider
      (cgo) "r \<in> set_option (fst (snd (generateCgoLib_bf g bfPath pkg)))"
    | (lib) "r \<in> set_option (fst (snd (generateLib_bf g bfPath pkg ?cgo)))"
    | (fg) "filegroup_bf bfPath pkg = Some r"
    by auto
  then show ?thesis
  proof cases
    case cgo
    from generateCgoLib_bf_rule [OF cgo] show ?thesis by blast
  next
    case lib
    from generateLib_bf_rule [OF lib] show ?thesis by fastforce
  next
    case fg
    then show ?thesis by simp
  qed
qed

lemma filegroup_ordered: "filegroup pkg = Some r \<Longrightarrow> nameFirstInOrder r \<and> Kind r = ''filegroup''"
  by (auto simp: filegroup_def newRule_def nameFirstInOrder_def attrKeys_def generatedAttrOrder_def
      split: if_splits)

lemma filegroup_bf_ordered:
  "filegroup_bf bfPath pkg = Some r \<Longrightarrow> nameFirstInOrder r \<and> Kind r = ''filegroup''"
  by (auto simp: filegroup_bf_def Let_def newRule_def nameFirstInOrder_def attrKeys_def
      generatedAttrOrder_def split: if_splits)

subsection \<open>Attribute order\<close>

lemma rootPackage_rules:
  "fst (generateRules exampleGenerator rootPackage) =
     [\<lparr>Kind = ''go_prefix'', Args = [''example.com/repo''], Attrs = []\<rparr>]"
  by code_simp

lemma cgoPackage_rules:
  "fst (generateRules exampleGenerator cgoPackage) =
     [\<lparr>Kind = ''cgo_library'', Args = [],
       Attrs =
        [(''name'', StringValue ''cgo_default_library''),
         (''srcs'', PlatformValue \<lparr>Generic = [''bridge.go''], Platform = [(''linux'', [''bridge_linux.c''])]\<rparr>),
         (''copts'', PlatformValue \<lparr>Generic = [''-O2''], Platform = []\<rparr>),
         (''visibility'', ListValue [''//visibility:private'']),
         (''deps'', PlatformValue
           \<lparr>Generic = [''//vendor/golang.org/x/net:go_default_library''],
            Platform = [(''linux'', [''//vendor/golang.org/x/sys:go_default_library''])]\<rparr>)]\<rparr>,
      \<lparr>Kind = ''go_library'', Args = [],
       Attrs =
        [(''name'', StringValue ''go_default_library''),
         (''library'', StringValue '':cgo_default_library''),
         (''visibility'', ListValue [''//visibility:private''])]\<rparr>,
      \<lparr>Kind = ''go_binary'', Args = [],
       Attrs =
        [(''name'', StringValue ''cmd''),
         (''library'', StringValue '':go_default_library''),
         (''visibility'', ListValue [''//a:__subpackages__''])]\<rparr>]"
  by code_simp

text \<open>
  C9, as the claim states it, fails: the rule emitted for the package at the repository
  root, \<open>go_prefix\<close>, has one positional argument and no attribute, so no \<open>name\<close>.
\<close>

theorem go_prefix_without_name_counterexample:
  "hd (fst (generateRules exampleGenerator rootPackage)) \<in> set (fst (generateRules exampleGenerator rootPackage))
   \<and> Kind (hd (fst (generateRules exampleGenerator rootPackage))) = ''go_prefix''
   \<and> ''name'' \<notin> set (attrKeys (hd (fst (generateRules exampleGenerator rootPackage))))
   \<and> \<not> nameFirstInOrder (hd (fst (generateRules exampleGenerator rootPackage)))"
  unfolding rootPackage_rules by (simp add: attrKeys_def nameFirstInOrder_def)

text \<open>
  C9, amended. Every rule either revision of the generator emits, for a package or for
  the vendored packages, is the \<open>go_prefix\<close> rule, which has no attributes, or has \<open>name\<close>
  as its first attribute and its attribute names in the order name, srcs, clinkopts,
  copts, data, library, visibility, deps, whatever the package holds.
\<close>

theorem emitted_rules_name_first:
  assumes "r \<in> set (fst (generateRules g pkg)) \<union> set (fst (generateRules_bf g bfPath pkg))
             \<union> set (fst (generateVendorRules g bfPath pkg))"
  shows "r = newRule ''go_prefix'' [GoPrefix (gen_c g)] [] \<or> nameFirstInOrder r"
proof -
  from assms consider
      (a) "r \<in> set (fst (generateRules g pkg))"
    | (b) "r \<in> set (fst (generateRules_bf g bfPath pkg))"
    | (c) "r \<in> set (fst (generateVendorRules g bfPath pkg))"
    by blast
  then show ?thesis
  proof cases
    case a
    from generateRules_cases [OF a] show ?thesis
      using filegroup_ordered generateRule_ordered by blast
  next
    case b
    from generateRules_bf_cases [OF b] show ?thesis
      using filegroup_bf_ordered generateRule_bf_ordered by blast
  next
    case c
    from generateVendorRules_cases [OF c] show ?thesis
      using filegroup_bf_ordered generateRule_bf_ordered by blast
  qed
qed

theorem emitted_rules_name_first_witness:
  "hd (fst (generateRules exampleGenerator cgoPackage))
     \<in> set (fst (generateRules exampleGenerator cgoPackage))
         \<union> set (fst (generateRules_bf exampleGenerator ''/repo/a'' cgoPackage))
         \<union> set (fst (generateVendorRules exampleGenerator ''/repo/a'' cgoPackage))
   \<and> hd (fst (generateRules exampleGenerator cgoPackage))
       \<noteq> newRule ''go_prefix'' [GoPrefix (gen_c exampleGenerator)] []
   \<and> attrKeys (hd (fst (generateRules exampleGenerator cgoPackage)))
       = [''name'', ''srcs'', ''copts'', ''visibility'', ''deps'']
   \<and> nameFirstInOrder (hd (fst (generateRules exampleGenerator cgoPackage)))"
proof -
  have m: "hd (fst (generateRules exampleGenerator cgoPackage))
     \<in> set (fst (generateRules exampleGenerator cgoPackage))
         \<union> set (fst (generateRules_bf exampleGenerator ''/repo/a'' cgoPackage))
         \<union> set (fst (generateVendorRules exampleGenerator ''/repo/a'' cgoPackage))"
    unfolding cgoPackage_rules by simp
  have n: "hd (fst (generateRules exampleGenerator cgoPackage))
       \<noteq> newRule ''go_prefix'' [GoPrefix (gen_c exampleGenerator)] []"
    unfolding cgoPackage_rules by (simp add: newRule_def)
  have k: "attrKeys (hd (fst (generateRules exampleGenerator cgoPackage)))
       = [''name'', ''srcs'', ''copts'', ''visibility'', ''deps'']"
    unfolding cgoPackage_rules by (simp add: attrKeys_def)
  from emitted_rules_name_first [OF m] n
  have "nameFirstInOrder (hd (fst (generateRules exampleGenerator cgoPackage)))" by blast
  with m n k show ?thesis by blast
qed

subsection \<open>Visibility of the cgo library\<close>

text \<open>
  C10. Every \<open>cgo_library\<close> rule either revision of the generator emits has the visibility
  \<open>//visibility:private\<close>, whatever the package is: a command or not, below an \<open>internal\<close>
  directory or not.
\<close>

theorem cgo_library_private:
  assumes "r \<in> set (fst (generateRules g pkg)) \<union> set (fst (generateRules_bf g bfPath pkg))
             \<union> set (fst (generateVendorRules g bfPath pkg))"
    and "Kind r = ''cgo_library''"
  shows "map_of (Attrs r) ''visibility'' = Some (ListValue [''//visibility:private''])"
proof -
  have p: "r \<noteq> newRule ''go_prefix'' [GoPrefix (gen_c g)] []"
    using assms(2) by (auto simp: newRule_def)
  have f: "filegroup pkg \<noteq> Some r" "filegroup_bf bfPath pkg \<noteq> Some r"
    using assms(2) filegroup_ordered [of pkg r] filegroup_bf_ordered [of bfPath pkg r] by auto
  from assms(1) consider
      (a) "r \<in> set (fst (generateRules g pkg))"
    | (b) "r \<in> set (fst (generateRules_bf g bfPath pkg))"
    | (c) "r \<in> set (fst (generateVendorRules g bfPath pkg))"
    by blast
  then show ?thesis
  proof cases
    case a
    from generateRules_cases [OF a] p f obtain kind nm vis lib ht tgt where
      r: "r = fst (generateRule g (Rel pkg) kind nm vis lib ht tgt)"
      and v: "kind = ''cgo_library'' \<longrightarrow> vis = ''//visibility:private''"
      by blast
    from r assms(2) have "kind = ''cgo_library''" by (simp add: generateRule_kind)
    with v have "vis = ''//visibility:private''" by simp
    then show ?thesis unfolding r generateRule_visibility by simp
  next
    case b
    from generateRules_bf_cases [OF b] p f obtain kind nm vis lib ht tgt where
      r: "r = fst (generateRule_bf g bfPath (Rel pkg) kind nm vis lib ht tgt)"
      and v: "kind = ''cgo_library'' \<longrightarrow> vis = ''//visibility:private''"
      by blast
    from r assms(2) have "kind = ''cgo_library''" by (simp add: generateRule_bf_kind)
    with v have "vis = ''//visibility:private''" by simp
    then show ?thesis unfolding r generateRule_bf_visibility by simp
  next
    case c
    from generateVendorRules_cases [OF c] f obtain kind nm vis lib ht tgt where
      r: "r = fst (generateRule_bf g bfPath (Rel pkg) kind nm vis lib ht tgt)"
      and v: "kind = ''cgo_library'' \<longrightarrow> vis = ''//visibility:private''"
      by blast
    from r assms(2) have "kind = ''cgo_library''" by (simp add: generateRule_bf_kind)
    with v have "vis = ''//visibility:private''" by simp
    then show ?thesis unfolding r generateRule_bf_visibility by simp
  qed
qed

theorem cgo_library_private_witness:
  "hd (fst (generateRules exampleGenerator cgoPackage))
     \<in> set (fst (generateRules exampleGenerator cgoPackage))
         \<union> set (fst (generateRules_bf exampleGenerator ''/repo/a'' cgoPackage))
         \<union> set (fst (generateVendorRules exampleGenerator ''/repo/a'' cgoPackage))
   \<and> Kind (hd (fst (generateRules exampleGenerator cgoPackage))) = ''cgo_library''
   \<and> IsCommand cgoPackage \<and> sublist ''/internal/'' (Rel cgoPackage)
   \<and> map_of (Attrs (hd (fst (generateRules exampleGenerator cgoPackage)))) ''visibility''
       = Some (ListValue [''//visibility:private''])"
proof -
  have m: "hd (fst (generateRules exampleGenerator cgoPackage))
     \<in> set (fst (generateRules exampleGenerator cgoPackage))
         \<union> set (fst (generateRules_bf exampleGenerator ''/repo/a'' cgoPackage))
         \<union> set (fst (generateVendorRules exampleGenerator ''/repo/a'' cgoPackage))"
    unfolding cgoPackage_rules by simp
  have k: "Kind (hd (fst (generateRules exampleGenerator cgoPackage))) = ''cgo_library''"
    unfolding cgoPackage_rules by simp
  have i: "IsCommand cgoPackage \<and> sublist ''/internal/'' (Rel cgoPackage)"
    by (simp add: cgoPackage_def sublist_code)
  from cgo_library_private [OF m k] m k i show ?thesis by blast
qed

subsection \<open>Dependencies\<close>

lemma mapSlice_fst:
  "fst (mapSlice f xs) = List.map_filter (\<lambda>s. case f s of Inl e \<Rightarrow> None | Inr r \<Rightarrow> Some r) xs"
  by (induction xs) (auto simp: List.map_filter_simps split: sum.splits)

lemma mapSlice_snd:
  "snd (mapSlice f xs) = List.map_filter (\<lambda>s. case f s of Inl e \<Rightarrow> Some e | Inr r \<Rightarrow> None) xs"
  by (induction xs) (auto simp: List.map_filter_simps split: sum.splits)

lemma map_filter_append: "List.map_filter f (xs @ ys) = List.map_filter f xs @ List.map_filter f ys"
  by (simp add: List.map_filter_def)

lemma map_filter_concat:
  "List.map_filter f (concat xss) = concat (map (List.map_filter f) xss)"
  by (induction xss) (simp_all add: map_filter_append List.map_filter_simps)

lemma PS_Map_strings:
  "PS_strings (fst (PS_Map f ps)) =
     List.map_filter (\<lambda>s. case f s of Inl e \<Rightarrow> None | Inr r \<Rightarrow> Some r) (PS_strings ps)"
  by (simp add: PS_Map_def PS_strings_def mapSlice_fst map_filter_append map_filter_concat
      comp_def case_prod_unfold)

lemma PS_Map_errors:
  "snd (PS_Map f ps) =
     List.map_filter (\<lambda>s. case f s of Inl e \<Rightarrow> Some e | Inr r \<Rightarrow> None) (PS_strings ps)"
  by (simp add: PS_Map_def PS_strings_def mapSlice_snd map_filter_append map_filter_concat
      comp_def case_prod_unfold)

lemma set_map_filter: "set (List.map_filter h xs) = {y. \<exists>x \<in> set xs. h x = Some y}"
  by (induction xs) (auto simp: List.map_filter_simps split: option.splits)

lemma PS_Clean_strings: "set (PS_strings (PS_Clean ps)) = set (PS_strings ps)"
  by (auto simp: PS_Clean_def PS_strings_def split_beta)

lemma cgoTarget_dependencies:
  "dependencies exampleGenerator (Imports cgoTarget) ''a/internal/cmd'' =
     (\<lparr>Generic = [''//vendor/golang.org/x/net:go_default_library''],
       Platform = [(''linux'', [''//vendor/golang.org/x/sys:go_default_library''])]\<rparr>,
      [CouldNotResolve ''a/internal/cmd'' ''example.com/broken'' ''no such package''])"
  by code_simp

text \<open>
  C8. A failure to resolve one import does not stop the generation. The dependencies are
  the labels of exactly the imports that resolve; the log holds one error for each import
  that does not, naming the directory, the import path and the cause, in the order of the
  imports; and the rule is built all the same, with these dependencies under \<open>deps\<close>.
\<close>

theorem dependencies_partial_failure:
  "set (PS_strings (fst (dependencies g imports dir)))
     = {label_String l | l imp. imp \<in> set (PS_strings imports) \<and> gen_r g imp dir = Inr l}
   \<and> Generic (fst (dependencies g imports dir))
     = remdups (List.map_filter
         (\<lambda>imp. case gen_r g imp dir of Inl err \<Rightarrow> None | Inr l \<Rightarrow> Some (label_String l))
         (Generic imports))
   \<and> snd (dependencies g imports dir)
     = List.map_filter
         (\<lambda>imp. case gen_r g imp dir of Inl err \<Rightarrow> Some (CouldNotResolve dir imp err) | Inr l \<Rightarrow> None)
         (PS_strings imports)
   \<and> (\<not> PS_IsEmpty (Imports target) \<longrightarrow>
        map_of (Attrs (fst (generateRule g dir kind nm visibility library hasTestdata target))) ''deps''
          = Some (PlatformValue (fst (dependencies g (Imports target) dir)))
        \<and> snd (generateRule g dir kind nm visibility library hasTestdata target)
          = snd (dependencies g (Imports target) dir))"
proof -
  let ?resolve = "\<lambda>imp. case gen_r g imp dir of
      Inl err \<Rightarrow> (Inl (CouldNotResolve dir imp err) :: dep_error + string)
    | Inr l \<Rightarrow> Inr (label_String l)"
  have d: "dependencies g imports dir
      = (PS_Clean (fst (PS_Map ?resolve imports)), snd (PS_Map ?resolve imports))"
    by (simp add: dependencies_def Let_def split_beta)
  have ok: "(\<lambda>s. case ?resolve s of Inl e \<Rightarrow> None | Inr r \<Rightarrow> Some r)
      = (\<lambda>imp. case gen_r g imp dir of Inl err \<Rightarrow> None | Inr l \<Rightarrow> Some (label_String l))"
    by (auto split: sum.splits)
  have bad: "(\<lambda>s. case ?resolve s of Inl e \<Rightarrow> Some e | Inr r \<Rightarrow> None)
      = (\<lambda>imp. case gen_r g imp dir of Inl err \<Rightarrow> Some (CouldNotResolve dir imp err) | Inr l \<Rightarrow> None)"
    by (auto split: sum.splits)
  have some: "(case gen_r g imp dir of Inl err \<Rightarrow> None | Inr l \<Rightarrow> Some (label_String l)) = Some y
      \<longleftrightarrow> (\<exists>l. gen_r g imp dir = Inr l \<and> y = label_String l)" for imp y
    by (cases "gen_r g imp dir") auto
  have 1: "set (PS_strings (fst (dependencies g imports dir)))
     = {label_String l | l imp. imp \<in> set (PS_strings imports) \<and> gen_r g imp dir = Inr l}"
    unfolding d fst_conv PS_Clean_strings PS_Map_strings ok set_map_filter some
    by blast
  have 2: "Generic (fst (dependencies g imports dir))
     = remdups (List.map_filter
         (\<lambda>imp. case gen_r g imp dir of Inl err \<Rightarrow> None | Inr l \<Rightarrow> Some (label_String l))
         (Generic imports))"
    unfolding d fst_conv by (simp add: PS_Clean_def PS_Map_def mapSlice_fst ok)
  have 3: "snd (dependencies g imports dir)
     = List.map_filter
         (\<lambda>imp. case gen_r g imp dir of Inl err \<Rightarrow> Some (CouldNotResolve dir imp err) | Inr l \<Rightarrow> None)
         (PS_strings imports)"
    unfolding d snd_conv PS_Map_errors bad by simp
  have 4: "\<not> PS_IsEmpty (Imports target) \<longrightarrow>
        map_of (Attrs (fst (generateRule g dir kind nm visibility library hasTestdata target))) ''deps''
          = Some (PlatformValue (fst (dependencies g (Imports target) dir)))
        \<and> snd (generateRule g dir kind nm visibility library hasTestdata target)
          = snd (dependencies g (Imports target) dir)"
    by (simp add: generateRule_deps generateRule_log)
  from 1 2 3 4 show ?thesis by blast
qed

theorem dependencies_partial_failure_witness:
  "\<not> PS_IsEmpty (Imports cgoTarget)
   \<and> gen_r exampleGenerator ''example.com/broken'' ''a/internal/cmd'' = Inl ''no such package''
   \<and> fst (dependencies exampleGenerator (Imports cgoTarget) ''a/internal/cmd'')
       = \<lparr>Generic = [''//vendor/golang.org/x/net:go_default_library''],
          Platform = [(''linux'', [''//vendor/golang.org/x/sys:go_default_library''])]\<rparr>
   \<and> snd (dependencies exampleGenerator (Imports cgoTarget) ''a/internal/cmd'')
       = [CouldNotResolve ''a/internal/cmd'' ''example.com/broken'' ''no such package'']
   \<and> map_of (Attrs (fst (generateRule exampleGenerator ''a/internal/cmd'' ''cgo_library''
         defaultCgoLibName ''//visibility:private'' [] False cgoTarget))) ''deps''
       = Some (PlatformValue
           \<lparr>Generic = [''//vendor/golang.org/x/net:go_default_library''],
            Platform = [(''linux'', [''//vendor/golang.org/x/sys:go_default_library''])]\<rparr>)
   \<and> snd (generateRule exampleGenerator ''a/internal/cmd'' ''cgo_library''
         defaultCgoLibName ''//visibility:private'' [] False cgoTarget)
       = [CouldNotResolve ''a/internal/cmd'' ''example.com/broken'' ''no such package'']"
proof -
  have h: "\<not> PS_IsEmpty (Imports cgoTarget)"
    by (simp add: cgoTarget_def PS_IsEmpty_def)
  have b: "gen_r exampleGenerator ''example.com/broken'' ''a/internal/cmd'' = Inl ''no such package''"
    by (simp add: exampleGenerator_def)
  from h dependencies_partial_failure [of exampleGenerator "Imports cgoTarget" "''a/internal/cmd''"
      cgoTarget "''cgo_library''" defaultCgoLibName "''//visibility:private''" "[]" False]
  have "map_of (Attrs (fst (generateRule exampleGenerator ''a/internal/cmd'' ''cgo_library''
         defaultCgoLibName ''//visibility:private'' [] False cgoTarget))) ''deps''
       = Some (PlatformValue (fst (dependencies exampleGenerator (Imports cgoTarget) ''a/internal/cmd'')))
     \<and> snd (generateRule exampleGenerator ''a/internal/cmd'' ''cgo_library''
         defaultCgoLibName ''//visibility:private'' [] False cgoTarget)
       = snd (dependencies exampleGenerator (Imports cgoTarget) ''a/internal/cmd'')"
    by blast
  with h b show ?thesis unfolding cgoTarget_dependencies by simp
qed

subsection \<open>The roots of the multi-root resolver\<close>

lemma newModeResolver_uno_sorted:
  assumes "DepMode c = UnoMode"
  shows "\<exists>roots. newModeResolver c = Some (UnoResolver roots) \<and> sorted roots"
  using assms by (simp add: newModeResolver_def)

text \<open>
  C3 does not hold of the code. With the sub-projects \<open>sub1/nested\<close> and \<open>sub1\<close>, the list
  the resolver holds is ascending, \<open>sub1\<close> before \<open>sub1/nested\<close>, so for the containing
  directory \<open>sub1/nested/pkg\<close> the first root that is a prefix is \<open>sub1\<close>, the shortest.
\<close>

theorem uno_roots_ascending:
  "newModeResolver (exampleConfig UnoMode) = Some (UnoResolver [''sub1'', ''sub1/nested''])
   \<and> firstMatchingRoot [''sub1'', ''sub1/nested''] ''sub1/nested/pkg'' = Some ''sub1''"
  by code_simp

section \<open>Properties of the merge engine\<close>

subsection \<open>Stable sorting of attributes\<close>

lemma sort_key_append_sorted:
  "sort_key f (xs @ sort_key f ys) = sort_key f (xs @ ys)"
proof (induction xs)
  case Nil
  show ?case by (simp add: sort_key_id_if_sorted)
next
  case (Cons x xs)
  then show ?case by simp
qed

lemma map_of_filter_key: "map_of (filter (\<lambda>kv. fst kv = k) xs) k = map_of xs k"
  by (induction xs) auto

lemma filter_key_sort_key:
  "filter (\<lambda>kv. fst kv = k) (sort_key (\<lambda>kv. p (fst kv)) xs) = filter (\<lambda>kv. fst kv = k) xs"
proof -
  have "filter (\<lambda>kv. fst kv = k) (sort_key (\<lambda>kv. p (fst kv)) xs)
      = filter (\<lambda>kv. fst kv = k) (filter (\<lambda>kv. p (fst kv) = p k) (sort_key (\<lambda>kv. p (fst kv)) xs))"
    by (simp add: conj_commute cong: conj_cong filter_cong)
  also have "\<dots> = filter (\<lambda>kv. fst kv = k) (filter (\<lambda>kv. p (fst kv) = p k) xs)"
    by (simp only: sort_key_stable)
  also have "\<dots> = filter (\<lambda>kv. fst kv = k) xs"
    by (simp add: conj_commute cong: conj_cong filter_cong)
  finally show ?thesis .
qed

lemma map_of_sort_key:
  "map_of (sort_key (\<lambda>kv. p (fst kv)) xs) k = map_of xs k"
proof -
  have "map_of (sort_key (\<lambda>kv. p (fst kv)) xs) k
      = map_of (filter (\<lambda>kv. fst kv = k) (sort_key (\<lambda>kv. p (fst kv)) xs)) k"
    by (simp only: map_of_filter_key)
  also have "\<dots> = map_of (filter (\<lambda>kv. fst kv = k) xs) k"
    by (simp only: filter_key_sort_key)
  also have "\<dots> = map_of xs k"
    by (simp only: map_of_filter_key)
  finally show ?thesis .
qed

lemma map_filter_as_filter:
  assumes "\<And>x. x \<in> set xs \<Longrightarrow> h x = (if Q x then Some x else None)"
  shows "List.map_filter h xs = filter Q xs"
  using assms by (induction xs) (simp_all add: List.map_filter_simps)

subsection \<open>Merging a matched pair twice\<close>

lemma keptElems_render: "keptElems (render v) = []"
  by (cases v) (simp_all add: plainElem_def comp_def)

lemma keptElems_marked: "filter elem_keep (keptElems v) = keptElems v"
  by (cases v) simp_all

lemma keptOf_marked: "filter elem_keep (keptOf t k) = keptOf t k"
  by (simp add: keptOf_def keptElems_marked split: option.splits)

lemma keptElems_mergeValue:
  assumes "filter elem_keep K = K" and "keptElems v = []"
  shows "keptElems (mergeValue K v) = K"
  using assms by (cases v) simp_all

lemma mergeValue_Nil: "mergeValue [] v = v"
  by (cases v) simp_all

lemma map_of_map_snd:
  "map_of (map (\<lambda>kv. (fst kv, f (fst kv) (snd kv))) xs) k = map_option (f k) (map_of xs k)"
  by (induction xs) auto

lemma map_of_in_keys: "k \<in> fst ` set xs \<Longrightarrow> \<exists>v. map_of xs k = Some v \<and> (k, v) \<in> set xs"
  by (induction xs) auto

text \<open>The values a generated rule can have bear no marker.\<close>

lemma renderRule_unmarked:
  "(k, v) \<in> set (Attrs (renderRule r)) \<Longrightarrow> keptElems v = []"
  by (auto simp: renderRule_def keptElems_render)

lemma mergeRule_attr_new:
  assumes "map_of (Attrs g) k = Some v"
  shows "map_of (Attrs (mergeRule P t g)) k = Some (mergeValue (keptOf t k) v)"
proof -
  have "map_of (map (\<lambda>kv. (fst kv, mergeValue (keptOf t (fst kv)) (snd kv))) (Attrs g)) k
      = Some (mergeValue (keptOf t k) v)"
    using assms map_of_map_snd [of "\<lambda>k. mergeValue (keptOf t k)" "Attrs g" k] by simp
  then show ?thesis
    by (simp add: mergeRule_def map_of_sort_key map_add_def)
qed

lemma mergeRule_attr_old:
  assumes "map_of (Attrs g) k = None"
  shows "map_of (Attrs (mergeRule P t g)) k
     = map_of (List.map_filter (carry P (map fst (Attrs g))) (Attrs t)) k"
proof -
  have "map_of (map (\<lambda>kv. (fst kv, mergeValue (keptOf t (fst kv)) (snd kv))) (Attrs g)) k = None"
    using assms map_of_map_snd [of "\<lambda>k. mergeValue (keptOf t k)" "Attrs g" k] by simp
  then show ?thesis
    by (simp add: mergeRule_def map_of_sort_key map_add_def)
qed

lemma keptOf_mergeRule:
  assumes "\<And>k v. (k, v) \<in> set (Attrs g) \<Longrightarrow> keptElems v = []"
    and "k \<in> fst ` set (Attrs g)"
  shows "keptOf (mergeRule P t g) k = keptOf t k"
proof -
  from map_of_in_keys [OF assms(2)] obtain v where
    v: "map_of (Attrs g) k = Some v" "(k, v) \<in> set (Attrs g)" by blast
  from assms(1) v(2) have "keptElems v = []" by blast
  then show ?thesis
    unfolding keptOf_def [of "mergeRule P t g"] mergeRule_attr_new [OF v(1)]
    by (simp add: keptElems_mergeValue keptOf_marked)
qed

lemma carry_fixed:
  assumes "carry P ks kv = Some kv'"
  shows "carry P ks kv' = Some kv'" and "fst kv' \<notin> set ks"
  using assms by (auto simp: carry_def keptElems_marked split: if_splits)

lemma carry_new_None:
  assumes "fst kv \<in> set ks"
  shows "carry P ks kv = None"
  using assms by (simp add: carry_def)

lemma map_filter_carry_new:
  assumes "fst ` set xs \<subseteq> set ks"
  shows "List.map_filter (carry P ks) xs = []"
  using assms by (induction xs) (auto simp: List.map_filter_simps carry_def)

lemma carried_after_merge:
  "List.map_filter (carry P (map fst (Attrs g))) (Attrs (mergeRule P t g))
     = sort_key (\<lambda>kv. attrPriority P (fst kv))
         (List.map_filter (carry P (map fst (Attrs g))) (Attrs t))"
proof -
  let ?ks = "map fst (Attrs g)"
  let ?f = "\<lambda>kv. attrPriority P (fst kv)"
  let ?MN = "map (\<lambda>kv. (fst kv, mergeValue (keptOf t (fst kv)) (snd kv))) (Attrs g)"
  let ?C = "List.map_filter (carry P ?ks) (Attrs t)"
  let ?Q = "\<lambda>kv. fst kv \<notin> set ?ks"
  have c: "fst x \<notin> set ?ks \<and> carry P ?ks x = Some x" if "x \<in> set ?C" for x
  proof -
    from that obtain y where "carry P ?ks y = Some x"
      by (auto simp: List.map_filter_def)
    then show ?thesis using carry_fixed [of P ?ks y x] by simp
  qed
  have n: "fst x \<in> set ?ks" if "x \<in> set ?MN" for x
    using that by force
  have "List.map_filter (carry P ?ks) (sort_key ?f (?MN @ ?C)) = filter ?Q (sort_key ?f (?MN @ ?C))"
  proof (rule map_filter_as_filter)
    fix x assume "x \<in> set (sort_key ?f (?MN @ ?C))"
    then consider "x \<in> set ?MN" | "x \<in> set ?C" by auto
    then show "carry P ?ks x = (if ?Q x then Some x else None)"
    proof cases
      case 1
      with n [OF 1] show ?thesis by (simp add: carry_new_None)
    next
      case 2
      with c [OF 2] show ?thesis by simp
    qed
  qed
  also have "\<dots> = sort_key ?f (filter ?Q ?MN @ filter ?Q ?C)"
    by (simp add: filter_sort)
  also have "filter ?Q ?MN = []"
    using n by (auto simp: filter_empty_conv)
  also have "filter ?Q ?C = ?C"
    using c by (auto simp: filter_id_conv)
  finally show ?thesis by (simp add: mergeRule_def)
qed

lemma mergeRule_twice:
  assumes "\<And>k v. (k, v) \<in> set (Attrs g) \<Longrightarrow> keptElems v = []"
  shows "mergeRule P (mergeRule P t g) g = mergeRule P t g"
proof -
  let ?m = "mergeRule P t g"
  have new: "map (\<lambda>kv. (fst kv, mergeValue (keptOf ?m (fst kv)) (snd kv))) (Attrs g)
      = map (\<lambda>kv. (fst kv, mergeValue (keptOf t (fst kv)) (snd kv))) (Attrs g)"
    by (rule map_cong [OF refl]) (simp add: keptOf_mergeRule [OF assms])
  have k: "Kind ?m = Kind t" by (simp add: mergeRule_def)
  show ?thesis
    unfolding mergeRule_def [of P ?m g] new carried_after_merge k sort_key_append_sorted
    by (simp add: mergeRule_def)
qed

lemma keptOf_unmarked:
  assumes "\<And>k v. (k, v) \<in> set (Attrs t) \<Longrightarrow> keptElems v = []"
  shows "keptOf t k = []"
proof (cases "map_of (Attrs t) k")
  case None
  then show ?thesis by (simp add: keptOf_def)
next
  case (Some v)
  then have "(k, v) \<in> set (Attrs t)" by (rule map_of_SomeD)
  with assms Some show ?thesis by (simp add: keptOf_def)
qed

lemma mergeRule_inserted:
  assumes "\<And>k v. (k, v) \<in> set (Attrs g) \<Longrightarrow> keptElems v = []"
  shows "mergeRule P (insertRule P g) g = insertRule P g"
proof -
  let ?t = "insertRule P g"
  have u: "keptElems v = []" if "(k, v) \<in> set (Attrs ?t)" for k v
    using that assms by (simp add: insertRule_def)
  have new: "map (\<lambda>kv. (fst kv, mergeValue (keptOf ?t (fst kv)) (snd kv))) (Attrs g) = Attrs g"
    by (simp add: keptOf_unmarked [of ?t, OF u] mergeValue_Nil)
  have old: "List.map_filter (carry P (map fst (Attrs g))) (Attrs ?t) = []"
    by (rule map_filter_carry_new) (simp add: insertRule_def)
  show ?thesis
    unfolding mergeRule_def [of P ?t g] new old by (simp add: insertRule_def)
qed

subsection \<open>The kind and name of a merged rule\<close>

lemma map_of_carried_hand:
  assumes "handAuthored P k" and "k \<notin> set ks"
  shows "map_of (List.map_filter (carry P ks) xs) k = map_of xs k"
proof (induction xs)
  case Nil
  show ?case by (simp add: List.map_filter_simps)
next
  case (Cons x xs)
  then show ?case using assms
    by (cases "carry P ks x") (auto simp: List.map_filter_simps carry_def split: if_splits)
qed

lemma map_of_carried_kept:
  assumes "\<not> handAuthored P k" and "k \<notin> set ks"
    and "map_of xs k = Some v" and "keptElems v \<noteq> []"
  shows "map_of (List.map_filter (carry P ks) xs) k = Some (ListExpr (keptElems v))"
  using assms(3)
proof (induction xs)
  case Nil
  then show ?case by simp
next
  case (Cons x xs)
  then show ?case using assms(1,2,4)
    by (cases "carry P ks x") (auto simp: List.map_filter_simps carry_def split: if_splits)
qed

lemma map_of_carried_not_string:
  assumes "\<not> handAuthored P k"
  shows "map_of (List.map_filter (carry P ks) xs) k \<noteq> Some (StringExpr s)"
proof (induction xs)
  case Nil
  show ?case by (simp add: List.map_filter_simps)
next
  case (Cons x xs)
  then show ?case using assms
    by (cases "carry P ks x") (auto simp: List.map_filter_simps carry_def split: if_splits)
qed

lemma ruleName_mergeRule:
  assumes "ruleName g = ruleName t"
  shows "ruleName (mergeRule P t g) = ruleName t"
proof (cases "map_of (Attrs g) ''name''")
  case None
  then have g: "ruleName t = []" using assms by (simp add: ruleName_def)
  have n: "''name'' \<notin> set (map fst (Attrs g))"
    using None by (simp add: map_of_eq_None_iff)
  show ?thesis
  proof (cases "handAuthored P ''name''")
    case True
    show ?thesis
      unfolding ruleName_def [of "mergeRule P t g"] mergeRule_attr_old [OF None]
        map_of_carried_hand [OF True n]
      by (simp add: ruleName_def)
  next
    case False
    have "map_of (List.map_filter (carry P (map fst (Attrs g))) (Attrs t)) ''name'' \<noteq> Some (StringExpr s)" for s
      by (rule map_of_carried_not_string [OF False])
    then have "ruleName (mergeRule P t g) = []"
      unfolding ruleName_def [of "mergeRule P t g"] mergeRule_attr_old [OF None]
      by (auto split: option.splits expr.splits)
    with g show ?thesis by simp
  qed
next
  case (Some v)
  show ?thesis
  proof (cases "keptOf t ''name'' = []")
    case True
    then show ?thesis
      unfolding ruleName_def [of "mergeRule P t g"] mergeRule_attr_new [OF Some]
      using assms Some by (simp add: mergeValue_Nil ruleName_def)
  next
    case False
    then have t: "ruleName t = []"
      by (auto simp: keptOf_def ruleName_def split: option.splits expr.splits)
    from False have "ruleName (mergeRule P t g) = []"
      unfolding ruleName_def [of "mergeRule P t g"] mergeRule_attr_new [OF Some]
      by (cases v) simp_all
    with t show ?thesis by simp
  qed
qed

lemma ruleKey_mergeRule:
  assumes "ruleKey g = ruleKey t"
  shows "ruleKey (mergeRule P t g) = ruleKey t"
  using assms ruleName_mergeRule [of g t P] by (simp add: ruleKey_def mergeRule_def)

lemma ruleKey_insertRule: "ruleKey (insertRule P g) = ruleKey g"
  by (simp add: ruleKey_def ruleName_def insertRule_def map_of_sort_key)

subsection \<open>Merging a tree twice\<close>

lemma Kind_mergeExisting_head:
  "Kind (if c then (case find Q gen of None \<Rightarrow> t | Some g \<Rightarrow> mergeRule P t g) else t) = Kind t"
  by (simp add: mergeRule_def split: option.splits)

lemma ruleKey_mergeExisting_head:
  "ruleKey (if c then (case find (\<lambda>g. ruleKey g = ruleKey t) gen of
                         None \<Rightarrow> t | Some g \<Rightarrow> mergeRule P t g) else t) = ruleKey t"
proof (cases "find (\<lambda>g. ruleKey g = ruleKey t) gen")
  case None
  then show ?thesis by simp
next
  case (Some g)
  then have "ruleKey g = ruleKey t" by (auto simp: find_Some_iff)
  with Some show ?thesis by (simp add: ruleKey_mergeRule)
qed

lemma keys_mergeExisting: "map ruleKey (mergeExisting P gen seen ts) = map ruleKey ts"
proof (induction ts arbitrary: seen)
  case Nil
  show ?case by simp
next
  case (Cons t ts)
  show ?case
    unfolding mergeExisting.simps list.map ruleKey_mergeExisting_head Cons.IH ..
qed

lemma mergeExisting_Cons_fixed:
  assumes "Kind t' = Kind t" and "ruleKey t' = ruleKey t"
    and "(if managedKind P (Kind t) \<and> ruleKey t \<notin> set seen
          then (case find (\<lambda>g. ruleKey g = ruleKey t) gen of
                  None \<Rightarrow> t' | Some g \<Rightarrow> mergeRule P t' g)
          else t') = t'"
  shows "mergeExisting P gen seen (t' # rest) = t' # mergeExisting P gen (ruleKey t # seen) rest"
  unfolding mergeExisting.simps assms(1) assms(2) assms(3) ..

lemma mergeExisting_twice:
  assumes "\<And>g k v. g \<in> set gen \<Longrightarrow> (k, v) \<in> set (Attrs g) \<Longrightarrow> keptElems v = []"
  shows "mergeExisting P gen seen (mergeExisting P gen seen ts) = mergeExisting P gen seen ts"
proof (induction ts arbitrary: seen)
  case Nil
  show ?case by simp
next
  case (Cons t ts)
  let ?c = "managedKind P (Kind t) \<and> ruleKey t \<notin> set seen"
  let ?t' = "if ?c then (case find (\<lambda>g. ruleKey g = ruleKey t) gen of
                            None \<Rightarrow> t | Some g \<Rightarrow> mergeRule P t g) else t"
  have kind: "Kind ?t' = Kind t" by (rule Kind_mergeExisting_head)
  have key: "ruleKey ?t' = ruleKey t" by (rule ruleKey_mergeExisting_head)
  have head: "(if managedKind P (Kind t) \<and> ruleKey t \<notin> set seen
               then (case find (\<lambda>g. ruleKey g = ruleKey t) gen of
                       None \<Rightarrow> ?t' | Some g \<Rightarrow> mergeRule P ?t' g)
               else ?t') = ?t'"
  proof (cases ?c)
    case False
    show ?thesis by (simp only: False if_False simp_thms)
  next
    case True
    show ?thesis
    proof (cases "find (\<lambda>g. ruleKey g = ruleKey t) gen")
      case None
      show ?thesis by (simp only: True if_True None option.case simp_thms)
    next
      case (Some g)
      then have "g \<in> set gen" by (auto simp: find_Some_iff)
      then have "mergeRule P (mergeRule P t g) g = mergeRule P t g"
        using assms by (intro mergeRule_twice) blast
      then show ?thesis by (simp only: True if_True Some option.case simp_thms)
    qed
  qed
  have "mergeExisting P gen seen (mergeExisting P gen seen (t # ts))
      = mergeExisting P gen seen (?t' # mergeExisting P gen (ruleKey t # seen) ts)"
    by simp
  also have "\<dots> = ?t' # mergeExisting P gen (ruleKey t # seen) (mergeExisting P gen (ruleKey t # seen) ts)"
    by (rule mergeExisting_Cons_fixed [OF kind key head])
  also have "\<dots> = ?t' # mergeExisting P gen (ruleKey t # seen) ts"
    by (simp only: Cons.IH)
  finally show ?case by simp
qed

lemma mergeExisting_append:
  "mergeExisting P gen seen (xs @ ys)
     = mergeExisting P gen seen xs @ mergeExisting P gen (rev (map ruleKey xs) @ seen) ys"
  by (induction xs arbitrary: seen) simp_all

lemma find_filter:
  assumes "\<And>x. Q x \<Longrightarrow> R x"
  shows "find Q (filter R xs) = find Q xs"
  using assms by (induction xs) auto

lemma find_first:
  assumes "\<And>x. x \<in> set pre \<Longrightarrow> \<not> Q x" and "Q g"
  shows "find Q (pre @ g # rest) = Some g"
  using assms by (induction pre) auto

lemma inserted_fixed:
  assumes "\<And>g k v. g \<in> set gen \<Longrightarrow> (k, v) \<in> set (Attrs g) \<Longrightarrow> keptElems v = []"
    and "filter (\<lambda>g. ruleKey g \<notin> K) gen = pre @ gs"
    and "ruleKey ` set pre \<subseteq> set seen"
  shows "mergeExisting P gen seen (map (insertRule P) gs) = map (insertRule P) gs"
  using assms(2,3)
proof (induction gs arbitrary: pre seen)
  case Nil
  show ?case by simp
next
  case (Cons g gs)
  let ?t = "insertRule P g"
  have key: "ruleKey ?t = ruleKey g" by (rule ruleKey_insertRule)
  have gF: "g \<in> set (filter (\<lambda>g. ruleKey g \<notin> K) gen)"
    using Cons.prems(1) by simp
  then have g: "g \<in> set gen" "ruleKey g \<notin> K" by auto
  have head: "(if managedKind P (Kind g) \<and> ruleKey g \<notin> set seen
               then (case find (\<lambda>h. ruleKey h = ruleKey g) gen of
                       None \<Rightarrow> ?t | Some h \<Rightarrow> mergeRule P ?t h)
               else ?t) = ?t"
  proof (cases "managedKind P (Kind g) \<and> ruleKey g \<notin> set seen")
    case False
    show ?thesis by (simp only: False if_False simp_thms)
  next
    case True
    with Cons.prems(2) have pre: "\<And>x. x \<in> set pre \<Longrightarrow> ruleKey x \<noteq> ruleKey g" by auto
    have "find (\<lambda>h. ruleKey h = ruleKey g) gen
        = find (\<lambda>h. ruleKey h = ruleKey g) (filter (\<lambda>g. ruleKey g \<notin> K) gen)"
      using g(2) by (intro find_filter [symmetric]) simp
    also have "\<dots> = Some g"
      unfolding Cons.prems(1) using pre by (intro find_first) simp_all
    finally have f: "find (\<lambda>h. ruleKey h = ruleKey g) gen = Some g" .
    have "mergeRule P ?t g = ?t"
      using assms(1) g(1) by (intro mergeRule_inserted) blast
    then show ?thesis by (simp only: True if_True f option.case simp_thms)
  qed
  have kind: "Kind ?t = Kind g" by (simp add: insertRule_def)
  have "filter (\<lambda>g. ruleKey g \<notin> K) gen = (pre @ [g]) @ gs"
    using Cons.prems(1) by simp
  moreover have "ruleKey ` set (pre @ [g]) \<subseteq> set (ruleKey g # seen)"
    using Cons.prems(2) by auto
  ultimately have tail: "mergeExisting P gen (ruleKey g # seen) (map (insertRule P) gs)
      = map (insertRule P) gs"
    by (rule Cons.IH)
  have "mergeExisting P gen seen (?t # map (insertRule P) gs)
      = ?t # mergeExisting P gen (ruleKey g # seen) (map (insertRule P) gs)"
    by (rule mergeExisting_Cons_fixed [OF kind key head])
  then show ?case by (simp add: tail)
qed

lemma mergeTrees_rules:
  "file_rules (mergeTrees P T G)
     = mergeExisting P (map renderRule (rulesOf G)) [] (file_rules T)
       @ map (insertRule P)
           (filter (\<lambda>g. ruleKey g \<notin> set (map ruleKey (file_rules T))) (map renderRule (rulesOf G)))"
  by (simp add: mergeTrees_def Let_def)

lemma mergeTrees_load:
  "file_load (mergeTrees P T G) = generateLoad (file_rules (mergeTrees P T G))"
  by (simp add: mergeTrees_def Let_def)

lemma rendered_unmarked:
  "g \<in> set (map renderRule rs) \<Longrightarrow> (k, v) \<in> set (Attrs g) \<Longrightarrow> keptElems v = []"
  using renderRule_unmarked by auto

text \<open>
  C1. Merging the generated tree into the result of merging it once gives that result
  again, for every build file on disk, every generated tree, and every choice of the
  managed kinds, the hand-authored attributes and the priority of the attribute names.
\<close>

theorem mergeTrees_idempotent:
  "mergeTrees P (mergeTrees P T G) G = mergeTrees P T G"
proof -
  let ?gen = "map renderRule (rulesOf G)"
  let ?old = "file_rules T"
  let ?K = "set (map ruleKey ?old)"
  let ?F = "filter (\<lambda>g. ruleKey g \<notin> ?K) ?gen"
  let ?merged = "mergeExisting P ?gen [] ?old"
  let ?ins = "map (insertRule P) ?F"
  have U: "\<And>g k v. g \<in> set ?gen \<Longrightarrow> (k, v) \<in> set (Attrs g) \<Longrightarrow> keptElems v = []"
    by (rule rendered_unmarked)
  have r1: "file_rules (mergeTrees P T G) = ?merged @ ?ins" by (rule mergeTrees_rules)
  have keys: "map ruleKey (?merged @ ?ins) = map ruleKey ?old @ map ruleKey ?F"
    by (simp add: keys_mergeExisting ruleKey_insertRule comp_def)
  have m: "mergeExisting P ?gen [] ?merged = ?merged"
    using U by (rule mergeExisting_twice)
  have i: "mergeExisting P ?gen (rev (map ruleKey ?merged) @ []) ?ins = ?ins"
    using U by (rule inserted_fixed [where pre = "[]" and K = ?K]) simp_all
  have again: "mergeExisting P ?gen [] (?merged @ ?ins) = ?merged @ ?ins"
    unfolding mergeExisting_append m i ..
  have none: "filter (\<lambda>g. ruleKey g \<notin> set (map ruleKey (?merged @ ?ins))) ?gen = []"
    unfolding keys by (auto simp: filter_empty_conv)
  have r2: "file_rules (mergeTrees P (mergeTrees P T G) G) = ?merged @ ?ins"
    unfolding mergeTrees_rules [of P "mergeTrees P T G" G] r1 again none by simp
  have "file_load (mergeTrees P (mergeTrees P T G) G) = file_load (mergeTrees P T G)"
    unfolding mergeTrees_load r2 r1 ..
  with r1 r2 show ?thesis by simp
qed

subsection \<open>Marked elements\<close>

lemma keptElems_filter: "keptElems v = filter elem_keep (exprElems v)"
  by (cases v) simp_all

lemma exprElems_mergeValue: "exprElems (mergeValue K w) = exprElems w @ K"
  by (cases w) simp_all

lemma length_mergeExisting: "length (mergeExisting P gen seen ts) = length ts"
  by (induction ts arbitrary: seen) simp_all

lemma mergeExisting_nth:
  assumes "i < length ts"
  shows "mergeExisting P gen seen ts ! i =
     (if managedKind P (Kind (ts ! i)) \<and> ruleKey (ts ! i) \<notin> set seen \<union> set (map ruleKey (take i ts))
      then (case find (\<lambda>g. ruleKey g = ruleKey (ts ! i)) gen of
              None \<Rightarrow> ts ! i
            | Some g \<Rightarrow> mergeRule P (ts ! i) g)
      else ts ! i)"
  using assms
proof (induction ts arbitrary: i seen)
  case Nil
  then show ?case by simp
next
  case (Cons t ts)
  show ?case
  proof (cases i)
    case 0
    show ?thesis unfolding 0 by (simp cong: option.case_cong)
  next
    case (Suc j)
    with Cons.prems have "j < length ts" by simp
    from Cons.IH [OF this, of "ruleKey t # seen"] show ?thesis
      unfolding Suc by (simp cong: option.case_cong)
  qed
qed

lemma mergeRule_keeps_marked:
  assumes "map_of (Attrs t) k = Some v" and "keptElems v \<noteq> []"
    and "\<And>w. (k, w) \<in> set (Attrs g) \<Longrightarrow> keptElems w = []"
  shows "\<exists>v'. map_of (Attrs (mergeRule P t g)) k = Some v'
           \<and> keptElems v' = keptElems v
           \<and> (\<forall>w. map_of (Attrs g) k = Some w \<longrightarrow> exprElems v' = exprElems w @ keptElems v)"
proof (cases "map_of (Attrs g) k")
  case (Some w)
  then have "(k, w) \<in> set (Attrs g)" by (rule map_of_SomeD)
  then have w: "keptElems w = []" by (rule assms(3))
  have K: "keptOf t k = keptElems v" using assms(1) by (simp add: keptOf_def)
  have "map_of (Attrs (mergeRule P t g)) k = Some (mergeValue (keptOf t k) w)"
    by (rule mergeRule_attr_new [OF Some])
  then have "map_of (Attrs (mergeRule P t g)) k = Some (mergeValue (keptElems v) w)"
    unfolding K .
  moreover have "keptElems (mergeValue (keptElems v) w) = keptElems v"
    using w by (intro keptElems_mergeValue) (simp_all add: keptElems_marked)
  ultimately show ?thesis using Some by (simp add: exprElems_mergeValue)
next
  case None
  then have n: "k \<notin> set (map fst (Attrs g))" by (simp add: map_of_eq_None_iff)
  show ?thesis
  proof (cases "handAuthored P k")
    case True
    have "map_of (Attrs (mergeRule P t g)) k = Some v"
      unfolding mergeRule_attr_old [OF None] map_of_carried_hand [OF True n] by (rule assms(1))
    with None show ?thesis by simp
  next
    case False
    have "map_of (Attrs (mergeRule P t g)) k = Some (ListExpr (keptElems v))"
      unfolding mergeRule_attr_old [OF None]
      by (rule map_of_carried_kept [OF False n assms(1,2)])
    with None show ?thesis by (simp add: keptElems_marked)
  qed
qed

text \<open>
  C4. Take an existing rule of a managed kind that is the first with its kind and name
  and is matched by a generated rule, and an attribute of it whose list holds an element
  bearing the marker. Then the merged rule, at the same place in the file, has that
  attribute, and the marked elements of its list are those of the existing list, each
  with its marker and in the same order; when the generated rule has the attribute, the
  list is the generated elements followed by the retained ones, whatever the generated
  value is.
\<close>

theorem marked_elements_retained:
  assumes "i < length (file_rules T)"
    and "managedKind P (Kind (file_rules T ! i))"
    and "ruleKey (file_rules T ! i) \<notin> set (map ruleKey (take i (file_rules T)))"
    and "find (\<lambda>g. ruleKey g = ruleKey (file_rules T ! i)) (map renderRule (rulesOf G)) = Some g"
    and "map_of (Attrs (file_rules T ! i)) k = Some v"
    and "e \<in> set (exprElems v)" and "elem_keep e"
  shows "\<exists>v'. map_of (Attrs (file_rules (mergeTrees P T G) ! i)) k = Some v'
           \<and> e \<in> set (exprElems v')
           \<and> filter elem_keep (exprElems v') = filter elem_keep (exprElems v)
           \<and> (\<forall>w. map_of (Attrs g) k = Some w \<longrightarrow>
                 exprElems v' = exprElems w @ filter elem_keep (exprElems v))"
proof -
  let ?gen = "map renderRule (rulesOf G)"
  let ?t = "file_rules T ! i"
  have nth: "file_rules (mergeTrees P T G) ! i = mergeExisting P ?gen [] (file_rules T) ! i"
    unfolding mergeTrees_rules using assms(1) by (simp add: nth_append length_mergeExisting)
  have m: "file_rules (mergeTrees P T G) ! i = mergeRule P ?t g"
    unfolding nth mergeExisting_nth [OF assms(1)] using assms(2,3,4) by simp
  have "g \<in> set ?gen" using assms(4) by (auto simp: find_Some_iff)
  then have u: "\<And>w. (k, w) \<in> set (Attrs g) \<Longrightarrow> keptElems w = []"
    using rendered_unmarked by blast
  have kept: "e \<in> set (keptElems v)"
    using assms(6,7) by (simp add: keptElems_filter)
  then have ne: "keptElems v \<noteq> []" by auto
  from mergeRule_keeps_marked [where P = P, OF assms(5) ne u] obtain v' where
    v': "map_of (Attrs (mergeRule P ?t g)) k = Some v'" "keptElems v' = keptElems v"
      "\<forall>w. map_of (Attrs g) k = Some w \<longrightarrow> exprElems v' = exprElems w @ keptElems v"
    by blast
  from kept v'(2) have "e \<in> set (keptElems v')" by simp
  then have "e \<in> set (exprElems v')" by (simp add: keptElems_filter)
  with v' show ?thesis unfolding m by (auto simp: keptElems_filter)
qed

lemma merged_test_rule:
  "file_rules (mergeTrees examplePolicy oldData newData) ! 1 =
     \<lparr>Kind = ''go_test'', Args = [],
      Attrs = [(''name'', StringExpr ''go_default_test''),
               (''size'', StringExpr ''small''),
               (''srcs'', ListExpr [plainElem ''parse_test.go'', plainElem ''print_test.go'',
                                    keepElem ''gen_test.go'']),
               (''data'', GlobExpr [''testdata/*'']),
               (''library'', StringExpr '':go_default_library'')]\<rparr>"
  by code_simp

theorem marked_elements_retained_witness:
  "1 < length (file_rules oldData)
   \<and> managedKind examplePolicy (Kind (file_rules oldData ! 1))
   \<and> ruleKey (file_rules oldData ! 1) \<notin> set (map ruleKey (take 1 (file_rules oldData)))
   \<and> find (\<lambda>g. ruleKey g = ruleKey (file_rules oldData ! 1)) (map renderRule (rulesOf newData))
       = Some (renderRule (rulesOf newData ! 1))
   \<and> map_of (Attrs (file_rules oldData ! 1)) ''srcs''
       = Some (ListExpr [keepElem ''gen_test.go'', plainElem ''parse_test.go''])
   \<and> keepElem ''gen_test.go'' \<in> set (exprElems (ListExpr [keepElem ''gen_test.go'', plainElem ''parse_test.go'']))
   \<and> elem_keep (keepElem ''gen_test.go'')
   \<and> map_of (Attrs (file_rules (mergeTrees examplePolicy oldData newData) ! 1)) ''srcs''
       = Some (ListExpr [plainElem ''parse_test.go'', plainElem ''print_test.go'', keepElem ''gen_test.go''])"
proof -
  have 1: "1 < length (file_rules oldData)" by (simp add: oldData_def)
  have 2: "managedKind examplePolicy (Kind (file_rules oldData ! 1))"
    by (simp add: oldData_def examplePolicy_def loadableKinds_def)
  have 3: "ruleKey (file_rules oldData ! 1) \<notin> set (map ruleKey (take 1 (file_rules oldData)))"
    by code_simp
  have 4: "find (\<lambda>g. ruleKey g = ruleKey (file_rules oldData ! 1)) (map renderRule (rulesOf newData))
       = Some (renderRule (rulesOf newData ! 1))"
    by code_simp
  have 5: "map_of (Attrs (file_rules oldData ! 1)) ''srcs''
       = Some (ListExpr [keepElem ''gen_test.go'', plainElem ''parse_test.go''])"
    by (simp add: oldData_def)
  have 6: "keepElem ''gen_test.go'' \<in> set (exprElems (ListExpr [keepElem ''gen_test.go'', plainElem ''parse_test.go'']))"
    by simp
  have 7: "elem_keep (keepElem ''gen_test.go'')" by (simp add: keepElem_def)
  from marked_elements_retained [OF 1 2 3 4 5 6 7]
  have "\<exists>v'. map_of (Attrs (file_rules (mergeTrees examplePolicy oldData newData) ! 1)) ''srcs'' = Some v'"
    by blast
  moreover have "map_of (Attrs (file_rules (mergeTrees examplePolicy oldData newData) ! 1)) ''srcs''
       = Some (ListExpr [plainElem ''parse_test.go'', plainElem ''print_test.go'', keepElem ''gen_test.go''])"
    unfolding merged_test_rule by simp
  ultimately show ?thesis using 1 2 3 4 5 6 7 by blast
qed

text \<open>The first case of the merger's test, and its second run.\<close>

lemma merge_test_case: "mergeTrees examplePolicy oldData newData = expected"
  by code_simp

end
